theory Spec2Isabelle
  imports Complex_Main "HOL-Library.Word" "HOL-Library.Log_Nat" "HOL-Library.Multiset"
begin

section \<open>JavaScript values used by the program\<close>

subsection \<open>Strings\<close>

text \<open>
  A JavaScript string is a sequence of 16-bit code units; \<open>length\<close>, \<open>substring\<close> and the
  regular expressions of the program all work on code units. \<open>js\<close> embeds an ASCII literal.
\<close>

type_synonym jsstring = "16 word list"

definition js :: "string \<Rightarrow> jsstring" where
  "js s = map of_char s"

text \<open>The regular-expression class \<open>\d\<close>: the ten ASCII digits.\<close>

definition is_digit :: "16 word \<Rightarrow> bool" where
  "is_digit c \<longleftrightarrow> 48 \<le> c \<and> c \<le> 57"

subsection \<open>Numbers\<close>

text \<open>
  The numbers the program handles (ordinals, byte sizes, pixel dimensions, offsets) are
  integers; they are modelled as \<open>int\<close>. Every integer of magnitude at most \<open>2^53\<close> is a
  double exactly, and \<open>+\<close>, \<open>-\<close>, \<open>%\<close>, comparisons and an exact integer quotient are exact on
  them. Where the program divides or multiplies into fractions, the result is a double:
  it is modelled by its exact rational value, and every arithmetic operation rounds to the
  nearest double (53 significant bits, ties to even). The exponent range is not bounded in
  the model (no overflow to \<open>Infinity\<close>, no subnormal numbers), which is exact for
  magnitudes between \<open>2^-1022\<close> and \<open>2^1023\<close>.
\<close>

definition pow2 :: "int \<Rightarrow> rat" where
  "pow2 k = (if 0 \<le> k then 2 ^ nat k else 1 / 2 ^ nat (- k))"

text \<open>\<open>binade x\<close> is the exponent \<open>e\<close> with \<open>2^e \<le> |x| < 2^(e+1)\<close>, for \<open>x \<noteq> 0\<close>.\<close>

definition binade :: "rat \<Rightarrow> int" where
  "binade x = (let (p, q) = quotient_of \<bar>x\<bar>; k = bitlen p - bitlen q
               in if pow2 k \<le> \<bar>x\<bar> then k else k - 1)"

definition round_half_even :: "rat \<Rightarrow> int" where
  "round_half_even r =
     (let f = \<lfloor>r\<rfloor>; d = r - of_int f
      in if d < 1 / 2 then f else if 1 / 2 < d then f + 1 else if even f then f else f + 1)"

text \<open>Rounding a real value to the nearest double.\<close>

definition fl :: "rat \<Rightarrow> rat" where
  "fl x = (if x = 0 then 0
           else let u = pow2 (binade x - 52) in of_int (round_half_even (x / u)) * u)"

definition fmul :: "rat \<Rightarrow> rat \<Rightarrow> rat" where
  "fmul x y = fl (x * y)"

definition fdiv :: "rat \<Rightarrow> rat \<Rightarrow> rat" where
  "fdiv x y = fl (x / y)"

definition fsub :: "rat \<Rightarrow> rat \<Rightarrow> rat" where
  "fsub x y = fl (x - y)"

text \<open>\<open>Math.round\<close>: the nearest integer, a tie going up.\<close>

definition Math_round :: "rat \<Rightarrow> int" where
  "Math_round x = \<lfloor>x + 1 / 2\<rfloor>"

text \<open>
  The result of \<open>calculateThumbnailWidth\<close> is an integer or, when the height is \<open>0\<close>,
  \<open>-Infinity\<close>.
\<close>

datatype jsnumber = Finite int | NegInfinity

text \<open>
  Number to string, as a template literal does it: decimal digits, a leading \<open>-\<close> for a
  negative number (the decimal form is what JavaScript prints below \<open>10^21\<close>).
\<close>

definition digit_char :: "nat \<Rightarrow> 16 word" where
  "digit_char d = of_nat (48 + d)"

function digits_of_nat :: "nat \<Rightarrow> jsstring" where
  "digits_of_nat n =
     (if n < 10 then [digit_char n] else digits_of_nat (n div 10) @ [digit_char (n mod 10)])"
  by pat_completeness auto
termination
  by (relation "measure (\<lambda>n. n)") auto

definition int_toString :: "int \<Rightarrow> jsstring" where
  "int_toString n = (if n < 0 then js ''-'' @ digits_of_nat (nat (- n)) else digits_of_nat (nat n))"

fun Number_toString :: "jsnumber \<Rightarrow> jsstring" where
  "Number_toString (Finite n) = int_toString n"
| "Number_toString NegInfinity = js ''-Infinity''"

subsection \<open>Arrays\<close>

text \<open>
  \<open>Array.prototype.slice(start, end)\<close>: a negative argument counts from the end, and
  both are clamped to the array.
\<close>

definition js_slice :: "'a list \<Rightarrow> int \<Rightarrow> int \<Rightarrow> 'a list" where
  "js_slice xs start end' =
     (let len = int (length xs);
          k = (if start < 0 then max (len + start) 0 else min start len);
          fin = (if end' < 0 then max (len + end') 0 else min end' len)
      in take (nat (fin - k)) (drop (nat k) xs))"

section \<open>The data model (types.ts, schemas.ts)\<close>

text \<open>
  An optional property is an \<open>option\<close>. An entry \<open>{ value: string }\<close> of \<open>extmetadata\<close> is
  modelled by its value.
\<close>

record extmetadata =
  ObjectName :: "jsstring option"
  Categories :: "jsstring option"
  DateTimeOriginal :: "jsstring option"
  ImageDescription :: "jsstring option"
  Credit :: "jsstring option"
  Artist :: "jsstring option"
  LicenseShortName :: "jsstring option"
  License :: "jsstring option"
  UsageTerms :: "jsstring option"
  LicenseUrl :: "jsstring option"

record imageinfo =
  ii_thumburl :: "jsstring option"
  ii_size :: "int option"
  ii_width :: "int option"
  ii_height :: "int option"
  ii_url :: "jsstring option"
  ii_descriptionurl :: "jsstring option"
  ii_descriptionshorturl :: "jsstring option"
  ii_mime :: "jsstring option"
  ii_extmetadata :: "extmetadata option"

record page =
  pg_pageid :: "int option"
  pg_index :: "int option"
  pg_title :: "jsstring option"
  pg_imageinfo :: "imageinfo list option"

record api_query =
  q_pages :: "page list option"

record api_error =
  err_code :: jsstring
  err_info :: jsstring

record WikimediaApiResponse =
  resp_query :: "api_query option"
  resp_error :: "api_error option"

record license_info =
  lic_name :: "jsstring option"
  lic_usageTerms :: "jsstring option"
  lic_url :: "jsstring option"

record ImageMetadata =
  img_index :: int
  img_url :: jsstring
  img_size :: "int option"
  img_width :: int
  img_height :: int
  img_aspectRatio :: "jsstring option"
  img_caption :: "jsstring option"
  img_date :: "jsstring option"
  img_descriptionurl :: jsstring
  img_description :: "jsstring option"
  img_credit :: "jsstring option"
  img_artist :: "jsstring option"
  img_license :: "license_info option"

record SearchResult =
  images :: "ImageMetadata list"
  hasMore :: bool
  nextOffset :: "int option"

datatype LicenseType = no_restrictions | all_licenses

record SearchImagesInput =
  sq_query :: jsstring
  limit :: int
  offset :: int
  sq_license :: LicenseType
  include_thumbnails :: bool

text \<open>A thrown \<open>Error\<close>, with its message.\<close>

datatype js_error = Error jsstring

section \<open>constants.ts\<close>

definition THUMBNAIL_SIZE :: int where
  "THUMBNAIL_SIZE = 256"

definition MAX_IMAGES_IN_COMPOSITE :: nat where
  "MAX_IMAGES_IN_COMPOSITE = 15"

section \<open>Text helpers\<close>

text \<open>\<open>!str\<close> holds for \<open>undefined\<close> and for the empty string.\<close>

definition truncateString :: "jsstring option \<Rightarrow> nat \<Rightarrow> jsstring option" where
  "truncateString str maxLength =
     (case str of
        None \<Rightarrow> None
      | Some s \<Rightarrow>
          if s = [] then None
          else if length s \<le> maxLength then Some s
          else Some (take maxLength s @ js ''...''))"

text \<open>
  \<open>html.replace(/<[^>]*>/g, "")\<close>: scanning from the left, a \<open><\<close> that has a \<open>>\<close> somewhere
  after it is removed together with everything up to the first such \<open>>\<close>; any other
  code unit is kept.
\<close>

function strip_tags :: "jsstring \<Rightarrow> jsstring" where
  "strip_tags [] = []"
| "strip_tags (c # cs) =
     (if c = of_char CHR ''<'' \<and> of_char CHR ''>'' \<in> set cs
      then strip_tags (tl (dropWhile (\<lambda>d. d \<noteq> of_char CHR ''>'') cs))
      else c # strip_tags cs)"
  by pat_completeness auto
termination
  by (relation "measure length")
     (auto simp: less_Suc_eq_le intro!: order_trans [OF diff_le_self length_dropWhile_le])

definition stripHtml :: "jsstring option \<Rightarrow> jsstring option" where
  "stripHtml html =
     (case html of
        None \<Rightarrow> None
      | Some s \<Rightarrow> if s = [] then None else Some (strip_tags s))"

section \<open>Aspect ratio label\<close>

text \<open>
  The remainder \<open>a % b\<close> of JavaScript takes the sign of \<open>a\<close>. The local function \<open>gcd\<close> of
  \<open>getAspectRatio\<close> is Euclid's algorithm on it.
\<close>

definition js_rem :: "int \<Rightarrow> int \<Rightarrow> int" where
  "js_rem a b = sgn a * (\<bar>a\<bar> mod \<bar>b\<bar>)"

function gcd' :: "int \<Rightarrow> int \<Rightarrow> int" where
  "gcd' a b = (if b = 0 then a else gcd' b (js_rem a b))"
  by pat_completeness auto
termination
  by (relation "measure (\<lambda>(a, b). nat \<bar>b\<bar>)")
     (auto simp: js_rem_def abs_mult abs_sgn_eq intro: abs_mod_less)

definition MAX_COMPONENT :: int where
  "MAX_COMPONENT = 21"

text \<open>
  The \<open>for\<close> loop of \<open>getAspectRatio\<close>, from the counter \<open>h\<close> on. \<open>smallestDelta\<close> is \<open>None\<close>
  while it still holds \<open>Number.POSITIVE_INFINITY\<close>, which every \<open>delta\<close> is below.
\<close>

function getAspectRatio_loop :: "rat \<Rightarrow> int \<Rightarrow> rat option \<Rightarrow> int \<times> int \<Rightarrow> int \<times> int" where
  "getAspectRatio_loop targetRatio h smallestDelta bestPair =
     (if h \<le> MAX_COMPONENT then
        let w = min MAX_COMPONENT (max 1 (Math_round (fmul targetRatio (of_int h))));
            delta = \<bar>fsub (fdiv (of_int w) (of_int h)) targetRatio\<bar>
        in if (case smallestDelta of None \<Rightarrow> True | Some d \<Rightarrow> delta < d)
           then getAspectRatio_loop targetRatio (h + 1) (Some delta) (w, h)
           else getAspectRatio_loop targetRatio (h + 1) smallestDelta bestPair
      else bestPair)"
  by pat_completeness auto
termination
  by (relation "measure (\<lambda>(t, h, d, b). nat (MAX_COMPONENT + 1 - h))") auto

text \<open>The code unit U+2248, the sign that marks an approximated ratio.\<close>

definition approx_sign :: "16 word" where
  "approx_sign = 0x2248"

text \<open>
  \<open>divisor\<close> divides \<open>width\<close> and \<open>height\<close> (lemma \<open>gcd'_eq_gcd\<close> below), so the two
  quotients of the source are exact integers and are written with \<open>div\<close>.
\<close>

definition getAspectRatio :: "int \<Rightarrow> int \<Rightarrow> jsstring" where
  "getAspectRatio width height =
     (if width \<le> 0 \<or> height \<le> 0 then js ''unknown''
      else
        let divisor = gcd' \<bar>width\<bar> \<bar>height\<bar>;
            reducedWidth = width div divisor;
            reducedHeight = height div divisor
        in if reducedWidth \<le> MAX_COMPONENT \<and> reducedHeight \<le> MAX_COMPONENT
           then int_toString reducedWidth @ js '':'' @ int_toString reducedHeight
           else
             let targetRatio = fdiv (of_int width) (of_int height);
                 bestPair = getAspectRatio_loop targetRatio 1 None (reducedWidth, reducedHeight)
             in approx_sign # int_toString (fst bestPair) @ js '':'' @ int_toString (snd bestPair))"

section \<open>Response normalizer\<close>

text \<open>
  Truthiness of an optional string (present and not empty) and of an optional number
  (present and not zero).
\<close>

definition truthy :: "jsstring option \<Rightarrow> bool" where
  "truthy v \<longleftrightarrow> (case v of None \<Rightarrow> False | Some s \<Rightarrow> s \<noteq> [])"

definition truthy_num :: "int option \<Rightarrow> bool" where
  "truthy_num v \<longleftrightarrow> (case v of None \<Rightarrow> False | Some n \<Rightarrow> n \<noteq> 0)"

text \<open>\<open>extmetadata?.Field?.value\<close>\<close>

definition ext_value :: "extmetadata option \<Rightarrow> (extmetadata \<Rightarrow> jsstring option) \<Rightarrow> jsstring option" where
  "ext_value ext field = (case ext of None \<Rightarrow> None | Some e \<Rightarrow> field e)"

text \<open>\<open>if (truncated) target = truncated\<close>: the property is set only to a truthy value.\<close>

definition set_if_truthy :: "jsstring option \<Rightarrow> jsstring option" where
  "set_if_truthy v = (if truthy v then v else None)"

text \<open>
  The two shapes of the optional text fields: \<open>if (v) { truncateString(v, n) ... }\<close> and
  \<open>if (v) { truncateString(stripHtml(v), n) ... }\<close>.
\<close>

definition plain_field :: "jsstring option \<Rightarrow> nat \<Rightarrow> jsstring option" where
  "plain_field v n = (if truthy v then set_if_truthy (truncateString v n) else None)"

definition stripped_field :: "jsstring option \<Rightarrow> nat \<Rightarrow> jsstring option" where
  "stripped_field v n = (if truthy v then set_if_truthy (truncateString (stripHtml v) n) else None)"

definition build_license :: "extmetadata option \<Rightarrow> license_info" where
  "build_license ext =
     \<lparr> lic_name =
         (if truthy (ext_value ext LicenseShortName)
          then set_if_truthy (truncateString (ext_value ext LicenseShortName) 100)
          else if truthy (ext_value ext License)
          then set_if_truthy (truncateString (ext_value ext License) 100)
          else None),
       lic_usageTerms = stripped_field (ext_value ext UsageTerms) 500,
       lic_url = (if truthy (ext_value ext LicenseUrl) then ext_value ext LicenseUrl else None) \<rparr>"

text \<open>\<open>Object.keys(license).length > 0\<close>\<close>

definition license_nonempty :: "license_info \<Rightarrow> bool" where
  "license_nonempty l \<longleftrightarrow> lic_name l \<noteq> None \<or> lic_usageTerms l \<noteq> None \<or> lic_url l \<noteq> None"

text \<open>\<open>page.index ?? 0\<close>\<close>

definition ordinal :: "page \<Rightarrow> int" where
  "ordinal p = (case pg_index p of None \<Rightarrow> 0 | Some i \<Rightarrow> i)"

text \<open>
  The body of the loop over \<open>slicedPages\<close>: \<open>None\<close> is a \<open>continue\<close>, \<open>Some\<close> the record that is
  pushed. (The test \<open>!info\<close> cannot hold for an element of the typed array.)
\<close>

definition parsePage :: "page \<Rightarrow> ImageMetadata option" where
  "parsePage p =
     (case pg_imageinfo p of
        None \<Rightarrow> None
      | Some [] \<Rightarrow> None
      | Some (info # _) \<Rightarrow>
          (case (ii_thumburl info, ii_width info, ii_height info) of
             (Some thumburl, Some width, Some height) \<Rightarrow>
               if thumburl = [] \<or> width = 0 \<or> height = 0 then None
               else
                 let ext = ii_extmetadata info;
                     license = build_license ext
                 in Some
                   \<lparr> img_index = ordinal p,
                     img_url = thumburl,
                     img_size = ii_size info,
                     img_width = width,
                     img_height = height,
                     img_aspectRatio = Some (getAspectRatio width height),
                     img_caption = plain_field (ext_value ext ObjectName) 500,
                     img_date = stripped_field (ext_value ext DateTimeOriginal) 500,
                     img_descriptionurl =
                       (case ii_descriptionshorturl info of None \<Rightarrow> [] | Some d \<Rightarrow> d),
                     img_description = stripped_field (ext_value ext ImageDescription) 500,
                     img_credit = stripped_field (ext_value ext Credit) 500,
                     img_artist = stripped_field (ext_value ext Artist) 500,
                     img_license = (if license_nonempty license then Some license else None) \<rparr>
           | _ \<Rightarrow> None))"

primrec parsePages :: "page list \<Rightarrow> ImageMetadata list" where
  "parsePages [] = []"
| "parsePages (p # ps) =
     (case parsePage p of None \<Rightarrow> parsePages ps | Some m \<Rightarrow> m # parsePages ps)"

definition empty_result :: SearchResult where
  "empty_result = \<lparr> images = [], hasMore = False, nextOffset = None \<rparr>"

text \<open>
  \<open>rawPages.sort(...)\<close> sorts the array of the document in place: the function is modelled
  with the document as state, and returns the document as the call leaves it together
  with the outcome (the thrown error or the result). \<open>Array.prototype.sort\<close> is stable, and
  the comparator orders by \<open>index ?? 0\<close>, so the sorted array is \<open>sort_key ordinal\<close> of it.
\<close>

definition parseWikimediaResponse ::
  "WikimediaApiResponse \<Rightarrow> SearchImagesInput \<Rightarrow> WikimediaApiResponse \<times> (js_error + SearchResult)" where
  "parseWikimediaResponse apiResponse params =
     (case resp_error apiResponse of
        Some e \<Rightarrow> (apiResponse, Inl (Error (js ''Wikimedia API error: '' @ err_info e)))
      | None \<Rightarrow>
          (case resp_query apiResponse of
             None \<Rightarrow> (apiResponse, Inr empty_result)
           | Some q \<Rightarrow>
               (case q_pages q of
                  None \<Rightarrow> (apiResponse, Inr empty_result)
                | Some pages \<Rightarrow>
                    if length pages = 0 then (apiResponse, Inr empty_result)
                    else
                      let rawPages = sort_key ordinal pages;
                          apiResponse' = apiResponse\<lparr>resp_query := Some (q\<lparr>q_pages := Some rawPages\<rparr>)\<rparr>;
                          startIndex = min (offset params) (int (length rawPages));
                          endIndex = min (offset params + limit params) (int (length rawPages));
                          hasMore = (int (length rawPages) > offset params + limit params);
                          slicedPages = js_slice rawPages startIndex endIndex;
                          result = \<lparr> images = parsePages slicedPages, hasMore = hasMore,
                                     nextOffset = None \<rparr>
                      in (apiResponse',
                          Inr (if hasMore
                               then result\<lparr>nextOffset := Some (offset params + limit params)\<rparr>
                               else result)))))"

text \<open>The page list of a document: empty when \<open>query\<close> or \<open>pages\<close> is absent.\<close>

definition page_list :: "WikimediaApiResponse \<Rightarrow> page list" where
  "page_list doc =
     (case resp_query doc of
        None \<Rightarrow> []
      | Some q \<Rightarrow> (case q_pages q of None \<Rightarrow> [] | Some ps \<Rightarrow> ps))"

section \<open>Thumbnail composite\<close>

definition calculateThumbnailWidth :: "int \<Rightarrow> int \<Rightarrow> jsnumber" where
  "calculateThumbnailWidth width height =
     (if height > width then
        (if height = 0 then NegInfinity
         else
           let scaleFactor = fdiv (of_int THUMBNAIL_SIZE) (of_int height)
           in Finite (Math_round (fmul (of_int width) scaleFactor)))
      else Finite THUMBNAIL_SIZE)"

text \<open>
  The regular expression \<open>/\/(\d+)px-/\<close> matched at the start of \<open>s\<close>: a slash, the longest
  run of digits (not empty), then \<open>px-\<close>. A shorter run of digits cannot match, since a
  digit would follow it. The result is what follows the match.
\<close>

definition match_width_segment :: "jsstring \<Rightarrow> jsstring option" where
  "match_width_segment s =
     (case s of
        [] \<Rightarrow> None
      | c # cs \<Rightarrow>
          if c = of_char CHR ''/'' then
            let ds = takeWhile is_digit cs; rest = dropWhile is_digit cs
            in if ds \<noteq> [] \<and> take 3 rest = js ''px-'' then Some (drop 3 rest) else None
          else None)"

text \<open>
  \<open>url.replace(regexp, replacement)\<close> without the \<open>g\<close> flag: the leftmost match is replaced,
  the rest of the string is copied.
\<close>

fun replace_first :: "jsstring \<Rightarrow> jsstring \<Rightarrow> jsstring" where
  "replace_first [] replacement = []"
| "replace_first (c # cs) replacement =
     (case match_width_segment (c # cs) of
        Some rest \<Rightarrow> replacement @ rest
      | None \<Rightarrow> c # replace_first cs replacement)"

text \<open>
  The replacement \<open>`/${newWidth}px-`\<close> holds no \<open>$\<close>, so it is inserted as it is.
\<close>

definition replaceUrlWidth :: "jsstring \<Rightarrow> jsnumber \<Rightarrow> jsstring" where
  "replaceUrlWidth url newWidth =
     replace_first url (js ''/'' @ Number_toString newWidth @ js ''px-'')"

text \<open>
  The network and the image library are parameters of the model. \<open>fetch w i u\<close> is what the
  request of item \<open>i\<close> for the URL \<open>u\<close> comes to: the promise rejects, or a response
  arrives with its \<open>ok\<close> flag and its body (\<open>None\<close> when reading the body rejects).
  \<open>resize w\<close> is \<open>sharp(buffer).resize(...).toBuffer()\<close>, \<open>None\<close> when it throws. \<open>render w\<close> is
  the final \<open>sharp({create ...}).composite(...).jpeg(...).toBuffer()\<close> followed by
  \<open>toString("base64")\<close>. Output on the console is not modelled.
\<close>

datatype 'raw response = Rejected | Response bool "'raw option"

datatype 'buf layer_input = Thumbnail 'buf | IndexLabel jsstring

record 'buf layer =
  layer_input :: "'buf layer_input"
  layer_top :: int
  layer_left :: int

record 'buf canvas =
  canvasWidth :: int
  canvasHeight :: int
  layers :: "'buf layer list"

record ('raw, 'buf) world =
  fetch :: "nat \<Rightarrow> jsstring \<Rightarrow> 'raw response"
  resize :: "'raw \<Rightarrow> 'buf option"
  render :: "'buf canvas \<Rightarrow> js_error + jsstring"

definition COLUMNS :: int where
  "COLUMNS = 3"

definition SPACING :: int where
  "SPACING = 10"

definition limitedImages :: "ImageMetadata list \<Rightarrow> ImageMetadata list" where
  "limitedImages imgs = js_slice imgs 0 (int MAX_IMAGES_IN_COMPOSITE)"

definition fetchUrl :: "ImageMetadata \<Rightarrow> jsstring" where
  "fetchUrl img =
     (let thumbnailWidth = calculateThumbnailWidth (img_width img) (img_height img)
      in replaceUrlWidth (img_url img) thumbnailWidth)"

text \<open>
  The callback mapped over \<open>limitedImages\<close>: \<open>None\<close> is the \<open>null\<close> it returns for a response
  that is not \<open>ok\<close> and from its \<open>catch\<close> block.
\<close>

definition processImage :: "('raw, 'buf) world \<Rightarrow> nat \<Rightarrow> ImageMetadata \<Rightarrow> ('buf \<times> nat) option" where
  "processImage w index img =
     (case fetch w index (fetchUrl img) of
        Rejected \<Rightarrow> None
      | Response ok body \<Rightarrow>
          if \<not> ok then None
          else
            (case body of
               None \<Rightarrow> None
             | Some buffer \<Rightarrow>
                 (case resize w buffer of
                    None \<Rightarrow> None
                  | Some resizedBuffer \<Rightarrow> Some (resizedBuffer, index))))"

text \<open>
  The requests issued, in the order of the items: each callback runs up to its \<open>fetch\<close>
  when \<open>map\<close> calls it.
\<close>

definition fetch_requests :: "ImageMetadata list \<Rightarrow> (nat \<times> jsstring) list" where
  "fetch_requests imgs =
     map (\<lambda>(index, img). (index, fetchUrl img)) (enumerate 0 (limitedImages imgs))"

definition imageBuffers :: "('raw, 'buf) world \<Rightarrow> ImageMetadata list \<Rightarrow> ('buf \<times> nat) option list" where
  "imageBuffers w imgs =
     map (\<lambda>(index, img). processImage w index img) (enumerate 0 (limitedImages imgs))"

definition validImages :: "('raw, 'buf) world \<Rightarrow> ImageMetadata list \<Rightarrow> ('buf \<times> nat) list" where
  "validImages w imgs = List.map_filter (\<lambda>b. b) (imageBuffers w imgs)"

definition cell_row :: "nat \<Rightarrow> int" where
  "cell_row index = \<lfloor>fdiv (of_nat index) (of_int COLUMNS)\<rfloor>"

definition cell_col :: "nat \<Rightarrow> int" where
  "cell_col index = js_rem (int index) COLUMNS"

definition cell_top :: "nat \<Rightarrow> int" where
  "cell_top index = cell_row index * THUMBNAIL_SIZE + (cell_row index + 1) * SPACING"

definition cell_left :: "nat \<Rightarrow> int" where
  "cell_left index = cell_col index * THUMBNAIL_SIZE + (cell_col index + 1) * SPACING"

definition compositeInputs :: "('buf \<times> nat) list \<Rightarrow> 'buf layer list" where
  "compositeInputs valid =
     map (\<lambda>(buffer, index).
            \<lparr> layer_input = Thumbnail buffer, layer_top = cell_top index,
              layer_left = cell_left index \<rparr>) valid"

text \<open>
  An overlay is the SVG text \<open>${index + 1}\<close>, bold 20px white on a black stroke, in a
  40 by 30 box; it is modelled by the text it shows.
\<close>

definition textOverlays :: "('buf \<times> nat) list \<Rightarrow> 'buf layer list" where
  "textOverlays valid =
     map (\<lambda>(buffer, index).
            \<lparr> layer_input = IndexLabel (int_toString (int index + 1)),
              layer_top = cell_top index + 5, layer_left = cell_left index + 5 \<rparr>) valid"

text \<open>
  The canvas handed to the image library, or \<open>None\<close> on the two paths that return the
  empty string before any canvas is made.
\<close>

definition composite_canvas :: "('raw, 'buf) world \<Rightarrow> ImageMetadata list \<Rightarrow> 'buf canvas option" where
  "composite_canvas w imgs =
     (if length (limitedImages imgs) = 0 then None
      else
        let rows = \<lceil>fdiv (of_nat (length (limitedImages imgs))) (of_int COLUMNS)\<rceil>;
            width = COLUMNS * THUMBNAIL_SIZE + (COLUMNS + 1) * SPACING;
            height = rows * THUMBNAIL_SIZE + (rows + 1) * SPACING;
            valid = validImages w imgs
        in if length valid = 0 then None
           else Some \<lparr> canvasWidth = width, canvasHeight = height,
                       layers = compositeInputs valid @ textOverlays valid \<rparr>)"

text \<open>
  The function returns the requests it issued and its outcome: the string the promise
  resolves to, or the error it rejects with.
\<close>

definition generateThumbnailComposite ::
  "('raw, 'buf) world \<Rightarrow> ImageMetadata list \<Rightarrow> (nat \<times> jsstring) list \<times> (js_error + jsstring)" where
  "generateThumbnailComposite w imgs =
     (fetch_requests imgs,
      (case composite_canvas w imgs of None \<Rightarrow> Inr [] | Some c \<Rightarrow> render w c))"

section \<open>Terms of the properties\<close>

subsection \<open>Sample documents\<close>

text \<open>
  The documents of the repository's tests: a page with ordinal \<open>i\<close> and one image-info
  entry of the given width and height, a response holding a list of pages, and the
  parameters of a search.
\<close>

definition test_page :: "int \<Rightarrow> int \<Rightarrow> int \<Rightarrow> page" where
  "test_page i w h =
     \<lparr> pg_pageid = Some i, pg_index = Some i, pg_title = Some (js ''File:Test.jpg''),
       pg_imageinfo = Some
         [\<lparr> ii_thumburl = Some (js ''https://example.com/256px-Test.jpg''),
            ii_size = None, ii_width = Some w, ii_height = Some h, ii_url = None,
            ii_descriptionurl = Some (js ''https://example.com/File:Test.jpg''),
            ii_descriptionshorturl = None, ii_mime = None, ii_extmetadata = None \<rparr>] \<rparr>"

definition test_response :: "page list \<Rightarrow> WikimediaApiResponse" where
  "test_response ps = \<lparr> resp_query = Some \<lparr> q_pages = Some ps \<rparr>, resp_error = None \<rparr>"

definition test_params :: "int \<Rightarrow> int \<Rightarrow> SearchImagesInput" where
  "test_params off l =
     \<lparr> sq_query = js ''test'', limit = l, offset = off, sq_license = all_licenses,
       include_thumbnails = False \<rparr>"

subsection \<open>Normalizer\<close>

text \<open>The images of the result, and no image when the call throws.\<close>

definition parsed_images :: "WikimediaApiResponse \<Rightarrow> SearchImagesInput \<Rightarrow> ImageMetadata list" where
  "parsed_images doc params =
     (case snd (parseWikimediaResponse doc params) of Inl e \<Rightarrow> [] | Inr r \<Rightarrow> images r)"

text \<open>
  A page has a usable first image-info entry: the entry exists, its thumbnail URL is
  present and not empty, its width and height are present and not zero.
\<close>

definition has_usable_info :: "page \<Rightarrow> bool" where
  "has_usable_info p \<longleftrightarrow>
     (case pg_imageinfo p of
        Some (info # rest) \<Rightarrow>
          truthy (ii_thumburl info) \<and> truthy_num (ii_width info) \<and> truthy_num (ii_height info)
      | _ \<Rightarrow> False)"

text \<open>
  The pagination window \<open>[offset, offset + limit)\<close> of the full set in ordinal order.
\<close>

definition selected_window :: "WikimediaApiResponse \<Rightarrow> SearchImagesInput \<Rightarrow> page list" where
  "selected_window doc params =
     take (nat (limit params)) (drop (nat (offset params)) (sort_key ordinal (page_list doc)))"

text \<open>The slice of the sorted pages that the code takes.\<close>

definition window_of :: "page list \<Rightarrow> SearchImagesInput \<Rightarrow> page list" where
  "window_of ps params =
     js_slice (sort_key ordinal ps) (min (offset params) (int (length ps)))
       (min (offset params + limit params) (int (length ps)))"

subsection \<open>Aspect ratio\<close>

text \<open>
  The candidate of the loop for a height component \<open>h\<close>, and its distance from the target
  ratio, as the loop body computes them in double arithmetic.
\<close>

definition candidate_width :: "rat \<Rightarrow> int \<Rightarrow> int" where
  "candidate_width targetRatio h =
     min MAX_COMPONENT (max 1 (Math_round (fmul targetRatio (of_int h))))"

definition ratio_delta :: "rat \<Rightarrow> int \<Rightarrow> rat" where
  "ratio_delta targetRatio h =
     \<bar>fsub (fdiv (of_int (candidate_width targetRatio h)) (of_int h)) targetRatio\<bar>"

text \<open>
  \<open>h\<close> is the first of the heights \<open>1, ..., n - 1\<close> whose candidate is closest to the target:
  none is nearer, and every earlier one is farther.
\<close>

definition first_closest_below :: "int \<Rightarrow> rat \<Rightarrow> int \<Rightarrow> bool" where
  "first_closest_below n targetRatio h \<longleftrightarrow>
     1 \<le> h \<and> h < n
     \<and> (\<forall>h'. 1 \<le> h' \<and> h' < n \<longrightarrow> ratio_delta targetRatio h \<le> ratio_delta targetRatio h')
     \<and> (\<forall>h'. 1 \<le> h' \<and> h' < h \<longrightarrow> ratio_delta targetRatio h < ratio_delta targetRatio h')"

definition first_closest :: "rat \<Rightarrow> int \<Rightarrow> bool" where
  "first_closest targetRatio h = first_closest_below (MAX_COMPONENT + 1) targetRatio h"

text \<open>
  The same two quantities read in exact arithmetic: the candidate for \<open>h\<close> is the rounded
  product of the exact ratio and \<open>h\<close>, clamped, and its distance from the ratio is the
  exact one.
\<close>

definition exact_candidate :: "rat \<Rightarrow> int \<Rightarrow> int" where
  "exact_candidate ratio h = min MAX_COMPONENT (max 1 \<lfloor>ratio * of_int h + 1 / 2\<rfloor>)"

definition exact_delta :: "rat \<Rightarrow> int \<Rightarrow> rat" where
  "exact_delta ratio h = \<bar>of_int (exact_candidate ratio h) / of_int h - ratio\<bar>"

subsection \<open>Thumbnail URLs\<close>



text \<open>A thumbnail URL of the repository's tests, and a URL without a width segment.\<close>

definition test_url :: jsstring where
  "test_url = js ''https://example.com/256px-Test.jpg''"


subsection \<open>Composite\<close>

text \<open>
  An image record like the one of the repository's composite test, with a given
  thumbnail URL.
\<close>

definition mock_image :: "jsstring \<Rightarrow> ImageMetadata" where
  "mock_image u =
     \<lparr> img_index = 0, img_url = u, img_size = None, img_width = 800, img_height = 600,
       img_aspectRatio = Some (js ''4:3''), img_caption = None, img_date = None,
       img_descriptionurl = js ''https://commons.wikimedia.org/wiki/File:Cat03.jpg'',
       img_description = None, img_credit = None, img_artist = None, img_license = None \<rparr>"

text \<open>
  Two worlds. In the first the request of item \<open>1\<close> is rejected and every other request is
  answered, the body being the URL that was asked for; resizing keeps the body. In the
  second no request gets an \<open>ok\<close> response. Both encode every canvas to the same
  non-empty text.
\<close>

definition mock_world :: "(jsstring, jsstring) world" where
  "mock_world =
     \<lparr> fetch = (\<lambda>i u. if i = 1 then Rejected else Response True (Some u)),
       resize = (\<lambda>raw. Some raw),
       render = (\<lambda>c. Inr (js ''/9j/'')) \<rparr>"

definition offline_world :: "(jsstring, jsstring) world" where
  "offline_world =
     \<lparr> fetch = (\<lambda>i u. Response False None),
       resize = (\<lambda>raw. Some raw),
       render = (\<lambda>c. Inr (js ''/9j/'')) \<rparr>"

text \<open>
  The cell of the item at position \<open>i\<close> in a grid of three columns: its row and column,
  and the origin of the cell for a cell side of \<open>THUMBNAIL_SIZE\<close> and a gap of \<open>SPACING\<close>.
\<close>

definition grid_top :: "nat \<Rightarrow> int" where
  "grid_top i = int (i div 3) * THUMBNAIL_SIZE + (int (i div 3) + 1) * SPACING"

definition grid_left :: "nat \<Rightarrow> int" where
  "grid_left i = int (i mod 3) * THUMBNAIL_SIZE + (int (i mod 3) + 1) * SPACING"

definition thumbnail_layer :: "'buf \<Rightarrow> nat \<Rightarrow> 'buf layer" where
  "thumbnail_layer b i =
     \<lparr> layer_input = Thumbnail b, layer_top = grid_top i, layer_left = grid_left i \<rparr>"

definition label_layer :: "nat \<Rightarrow> 'buf layer" where
  "label_layer i =
     \<lparr> layer_input = IndexLabel (int_toString (int i + 1)),
       layer_top = grid_top i + 5, layer_left = grid_left i + 5 \<rparr>"

text \<open>
  The canvas of a grid of \<open>columns\<close> by \<open>rows\<close> cells: \<open>columns * cell + (columns + 1) * spacing\<close>
  wide and \<open>rows * cell + (rows + 1) * spacing\<close> tall.
\<close>

definition layout_canvas_size :: "int \<Rightarrow> int \<Rightarrow> int \<times> int" where
  "layout_canvas_size columns rows =
     (columns * THUMBNAIL_SIZE + (columns + 1) * SPACING,
      rows * THUMBNAIL_SIZE + (rows + 1) * SPACING)"

definition canvas_size :: "'buf canvas \<Rightarrow> int \<times> int" where
  "canvas_size c = (canvasWidth c, canvasHeight c)"

definition composite_size :: "('raw, 'buf) world \<Rightarrow> ImageMetadata list \<Rightarrow> (int \<times> int) option" where
  "composite_size w imgs = map_option canvas_size (composite_canvas w imgs)"

section \<open>Properties of the response normalizer\<close>

subsection \<open>The sample documents\<close>

lemma ordinal_test_page: "ordinal (test_page i w h) = i"
  by (simp add: ordinal_def test_page_def)

lemma usable_test_page: "has_usable_info (test_page i w h) \<longleftrightarrow> w \<noteq> 0 \<and> h \<noteq> 0"
  by (simp add: has_usable_info_def test_page_def truthy_def truthy_num_def js_def)

lemma test_page_index_neq: "i \<noteq> j \<Longrightarrow> test_page i w h \<noteq> test_page j w' h'"
  by (simp add: test_page_def)

lemma page_list_test_response: "page_list (test_response ps) = ps"
  by (simp add: page_list_def test_response_def)

lemma resp_error_test_response: "resp_error (test_response ps) = None"
  by (simp add: test_response_def)

lemma test_params_sel: "offset (test_params off l) = off" "limit (test_params off l) = l"
  by (simp_all add: test_params_def)

subsection \<open>The call, unfolded\<close>

lemma js_slice_window:
  assumes "0 \<le> off" "0 \<le> n"
  shows "js_slice xs (min off (int (length xs))) (min (off + n) (int (length xs)))
         = take (nat n) (drop (nat off) xs)"
proof (cases "off \<le> int (length xs)")
  case True
  then show ?thesis using assms
    by (auto simp: js_slice_def Let_def min_def nat_diff_distrib nat_add_distrib)
next
  case False
  then show ?thesis using assms
    by (auto simp: js_slice_def Let_def min_def)
qed

lemma sorted_js_slice:
  assumes "sorted (map f xs)"
  shows "sorted (map f (js_slice xs a b))"
proof -
  have "sorted (drop k (map f xs))" for k
    using assms by (rule sorted_wrt_drop)
  then have "sorted (take n (drop k (map f xs)))" for n k
    by (rule sorted_wrt_take)
  then show ?thesis
    by (simp add: js_slice_def Let_def take_map drop_map)
qed

lemma set_js_slice: "set (js_slice xs a b) \<subseteq> set xs"
proof -
  have "set (take n (drop k xs)) \<subseteq> set xs" for n k
    using set_take_subset [of n "drop k xs"] set_drop_subset [of k xs] by blast
  then show ?thesis by (simp add: js_slice_def Let_def)
qed

lemma parse_unfold:
  assumes "resp_error doc = None"
  shows "parseWikimediaResponse doc params =
           (if page_list doc = [] then (doc, Inr empty_result)
            else (doc\<lparr>resp_query := Some \<lparr>q_pages = Some (sort_key ordinal (page_list doc))\<rparr>\<rparr>,
                  Inr \<lparr> images = parsePages (window_of (page_list doc) params),
                        hasMore = (int (length (page_list doc)) > offset params + limit params),
                        nextOffset =
                          (if int (length (page_list doc)) > offset params + limit params
                           then Some (offset params + limit params) else None) \<rparr>))"
  using assms
  by (simp add: parseWikimediaResponse_def page_list_def Let_def window_of_def
           split: option.splits)

lemma parse_Inr_no_error:
  assumes "snd (parseWikimediaResponse doc params) = Inr r"
  shows "resp_error doc = None"
  using assms by (cases "resp_error doc") (simp_all add: parseWikimediaResponse_def)

lemma window_of_eq:
  assumes "0 \<le> offset params" and "0 \<le> limit params"
  shows "window_of (page_list doc) params = selected_window doc params"
  using js_slice_window [OF assms, of "sort_key ordinal (page_list doc)"]
  by (simp add: window_of_def selected_window_def)

lemma parse_images:
  assumes "resp_error doc = None" and "0 \<le> offset params" and "0 \<le> limit params"
  shows "\<exists>r. snd (parseWikimediaResponse doc params) = Inr r
             \<and> images r = parsePages (selected_window doc params)"
proof (cases "page_list doc = []")
  case True
  then show ?thesis
    by (simp add: parse_unfold [OF assms(1)] empty_result_def selected_window_def)
next
  case False
  then show ?thesis
    by (simp add: parse_unfold [OF assms(1)] window_of_eq [OF assms(2,3)])
qed

subsection \<open>The loop over the window\<close>

lemma parsePage_Some_iff: "parsePage p \<noteq> None \<longleftrightarrow> has_usable_info p"
  by (auto simp: parsePage_def has_usable_info_def truthy_def truthy_num_def Let_def
           split: option.splits list.splits)

lemma parsePages_eq: "map Some (parsePages ps) = map parsePage (filter has_usable_info ps)"
  by (induction ps) (auto simp: parsePage_Some_iff [symmetric] split: option.splits)

lemma parsePage_fields:
  assumes "parsePage p = Some m"
  shows "\<exists>info rest. pg_imageinfo p = Some (info # rest)
           \<and> ii_thumburl info = Some (img_url m) \<and> img_url m \<noteq> []
           \<and> ii_width info = Some (img_width m) \<and> img_width m \<noteq> 0
           \<and> ii_height info = Some (img_height m) \<and> img_height m \<noteq> 0
           \<and> img_index m = ordinal p"
  using assms
  by (auto simp: parsePage_def Let_def split: option.splits list.splits if_splits)

lemma parsePages_mem:
  "m \<in> set (parsePages ps) \<Longrightarrow> \<exists>p \<in> set ps. parsePage p = Some m"
  by (induction ps) (auto split: option.splits)

lemma parsePages_index:
  "map img_index (parsePages ps) = map ordinal (filter has_usable_info ps)"
proof (induction ps)
  case Nil
  then show ?case by simp
next
  case (Cons p ps)
  show ?case
  proof (cases "parsePage p")
    case None
    with Cons parsePage_Some_iff [of p] show ?thesis by simp
  next
    case (Some m)
    with Cons parsePage_Some_iff [of p] parsePage_fields [OF Some] show ?thesis by auto
  qed
qed

subsection \<open>Pagination flags\<close>

text \<open>
  Claim C1. For a document without an error whose page list has length \<open>L\<close>, an offset
  \<open>o \<ge> 0\<close> and a limit \<open>l \<ge> 1\<close>, \<open>parseWikimediaResponse\<close> returns a result; its \<open>hasMore\<close> is
  true exactly when \<open>L > o + l\<close> (\<open>L\<close> is the length of the sorted page list, \<open>0\<close> when the
  document has no pages); \<open>nextOffset\<close> is present exactly when \<open>hasMore\<close> is true, and is
  then \<open>o + l\<close>.
\<close>

theorem parse_hasMore_nextOffset:
  assumes "resp_error doc = None" and "0 \<le> offset params" and "1 \<le> limit params"
  shows "\<exists>r. snd (parseWikimediaResponse doc params) = Inr r
           \<and> (hasMore r \<longleftrightarrow> int (length (sort_key ordinal (page_list doc))) > offset params + limit params)
           \<and> (nextOffset r \<noteq> None \<longleftrightarrow> hasMore r)
           \<and> (hasMore r \<longrightarrow> nextOffset r = Some (offset params + limit params))"
  using assms
  by (auto simp: parseWikimediaResponse_def page_list_def empty_result_def Let_def
           split: option.splits)

theorem parse_hasMore_nextOffset_witness:
  "resp_error (test_response [test_page 1 800 600, test_page 0 800 600, test_page 2 800 600]) = None
   \<and> 0 \<le> offset (test_params 0 2) \<and> 1 \<le> limit (test_params 0 2)
   \<and> (\<exists>r. snd (parseWikimediaResponse
                (test_response [test_page 1 800 600, test_page 0 800 600, test_page 2 800 600])
                (test_params 0 2)) = Inr r
          \<and> hasMore r \<and> nextOffset r = Some 2)"
  using parse_hasMore_nextOffset
          [of "test_response [test_page 1 800 600, test_page 0 800 600, test_page 2 800 600]"
              "test_params 0 2"]
  by (auto simp: resp_error_test_response page_list_test_response test_params_sel
                 ordinal_test_page)

subsection \<open>Which pages are emitted\<close>

text \<open>
  Claim C3, as amended. For a document without an error, \<open>o \<ge> 0\<close> and \<open>l \<ge> 1\<close>, the images of
  the result are, in order, the records built from the pages of the window that have a
  usable first image-info entry: a page of the window is emitted exactly when it has
  one, and is dropped otherwise. Every emitted record carries the thumbnail URL, the
  width and the height of that entry; the URL is not empty, the width and the height are
  not zero (they are the page's own values, so they are positive unless the page's
  value is negative).
\<close>

theorem parse_emits_usable_pages:
  assumes "resp_error doc = None" and "0 \<le> offset params" and "1 \<le> limit params"
  shows "\<exists>r. snd (parseWikimediaResponse doc params) = Inr r
           \<and> map Some (images r) = map parsePage (filter has_usable_info (selected_window doc params))
           \<and> (\<forall>p \<in> set (selected_window doc params). parsePage p \<noteq> None \<longleftrightarrow> has_usable_info p)
           \<and> (\<forall>m \<in> set (images r). \<exists>p \<in> set (selected_window doc params). \<exists>info rest.
                  parsePage p = Some m \<and> pg_imageinfo p = Some (info # rest)
                  \<and> ii_thumburl info = Some (img_url m) \<and> img_url m \<noteq> []
                  \<and> ii_width info = Some (img_width m) \<and> img_width m \<noteq> 0
                  \<and> ii_height info = Some (img_height m) \<and> img_height m \<noteq> 0)"
proof -
  from assms(3) have lim: "0 \<le> limit params" by simp
  from parse_images [OF assms(1,2) lim] obtain r
    where r: "snd (parseWikimediaResponse doc params) = Inr r"
      and im: "images r = parsePages (selected_window doc params)"
    by blast
  have "\<exists>p \<in> set (selected_window doc params). \<exists>info rest.
           parsePage p = Some m \<and> pg_imageinfo p = Some (info # rest)
           \<and> ii_thumburl info = Some (img_url m) \<and> img_url m \<noteq> []
           \<and> ii_width info = Some (img_width m) \<and> img_width m \<noteq> 0
           \<and> ii_height info = Some (img_height m) \<and> img_height m \<noteq> 0"
    if "m \<in> set (images r)" for m
  proof -
    from that im obtain p where p: "p \<in> set (selected_window doc params)" "parsePage p = Some m"
      using parsePages_mem by metis
    from parsePage_fields [OF p(2)] p show ?thesis by blast
  qed
  moreover have "\<forall>p \<in> set (selected_window doc params). parsePage p \<noteq> None \<longleftrightarrow> has_usable_info p"
    by (simp only: parsePage_Some_iff) simp
  moreover have "map Some (images r) = map parsePage (filter has_usable_info (selected_window doc params))"
    by (simp only: im parsePages_eq)
  ultimately show ?thesis using r by blast
qed

theorem parse_emits_usable_pages_witness:
  "resp_error (test_response [test_page 1 800 600, test_page 0 0 600]) = None
   \<and> 0 \<le> offset (test_params 0 10) \<and> 1 \<le> limit (test_params 0 10)
   \<and> map img_index (parsed_images (test_response [test_page 1 800 600, test_page 0 0 600])
                       (test_params 0 10)) = [1]"
proof -
  let ?doc = "test_response [test_page 1 800 600, test_page 0 0 600]"
  let ?params = "test_params 0 10"
  have h: "resp_error ?doc = None" "0 \<le> offset ?params" "1 \<le> limit ?params"
    by (simp_all add: resp_error_test_response test_params_sel)
  have w: "selected_window ?doc ?params = [test_page 0 0 600, test_page 1 800 600]"
    by (simp add: selected_window_def page_list_test_response test_params_sel ordinal_test_page)
  from parse_emits_usable_pages [OF h] obtain r
    where r: "snd (parseWikimediaResponse ?doc ?params) = Inr r"
      and im: "map Some (images r) = map parsePage (filter has_usable_info (selected_window ?doc ?params))"
    by blast
  from im have "map Some (images r) = [parsePage (test_page 1 800 600)]"
    by (simp add: w usable_test_page)
  then obtain m where m: "images r = [m]" "parsePage (test_page 1 800 600) = Some m"
    by auto
  from parsePage_fields [OF m(2)] have "img_index m = 1"
    by (auto simp: ordinal_test_page)
  with r m h show ?thesis by (simp add: parsed_images_def)
qed

text \<open>
  The claim as it was stated promises a positive width for every emitted record. A page
  whose width is \<open>-5\<close> passes the test \<open>!info.width\<close> and is emitted with that width.
\<close>

theorem parse_positive_dimensions_counterexample:
  "map img_width (parsed_images (test_response [test_page 0 (- 5) 600]) (test_params 0 10)) = [- 5]"
proof -
  let ?doc = "test_response [test_page 0 (- 5) 600]"
  have e: "resp_error ?doc = None" by (rule resp_error_test_response)
  have w: "window_of [test_page 0 (- 5) 600] (test_params 0 10) = [test_page 0 (- 5) 600]"
    by (simp add: window_of_def test_params_sel js_slice_def)
  have "has_usable_info (test_page 0 (- 5) 600)"
    by (simp add: usable_test_page)
  then obtain m where m: "parsePage (test_page 0 (- 5) 600) = Some m"
    using parsePage_Some_iff by blast
  from parsePage_fields [OF m] have "img_width m = - 5"
    by (auto simp: test_page_def)
  with m w show ?thesis
    by (simp add: parsed_images_def parse_unfold [OF e] page_list_test_response)
qed

subsection \<open>Order of the images\<close>

text \<open>
  Claim C4. Whatever the order of the pages in the document, the images of a returned
  result are sorted ascending by \<open>index\<close>, and every image is the record of a page of the
  document whose \<open>index\<close> is that page's ordinal (\<open>0\<close> for a page without one), not its
  position in the returned list.
\<close>

theorem parse_images_sorted:
  assumes "snd (parseWikimediaResponse doc params) = Inr r"
  shows "sorted (map img_index (images r))
         \<and> (\<forall>m \<in> set (images r). \<exists>p \<in> set (page_list doc).
                parsePage p = Some m \<and> img_index m = ordinal p)"
proof (cases "page_list doc = []")
  case True
  with assms parse_unfold [OF parse_Inr_no_error [OF assms], of params] show ?thesis
    by (auto simp: empty_result_def)
next
  case False
  let ?w = "window_of (page_list doc) params"
  from False assms parse_unfold [OF parse_Inr_no_error [OF assms], of params]
  have im: "images r = parsePages ?w" by auto
  have "sorted (map ordinal (sort_key ordinal (page_list doc)))"
    by (rule sorted_sort_key)
  then have "sorted (map ordinal ?w)"
    unfolding window_of_def by (rule sorted_js_slice)
  then have s: "sorted (map img_index (images r))"
    by (simp add: im parsePages_index sorted_filter)
  have sub: "set ?w \<subseteq> set (page_list doc)"
    using set_js_slice [of "sort_key ordinal (page_list doc)"] by (auto simp: window_of_def)
  have "\<exists>p \<in> set (page_list doc). parsePage p = Some m \<and> img_index m = ordinal p"
    if "m \<in> set (images r)" for m
  proof -
    from that im obtain p where p: "p \<in> set ?w" "parsePage p = Some m"
      using parsePages_mem by metis
    with sub parsePage_fields [OF p(2)] show ?thesis by blast
  qed
  with s show ?thesis by blast
qed

theorem parse_images_sorted_witness:
  "\<exists>r. snd (parseWikimediaResponse
              (test_response [test_page 2 800 600, test_page 0 800 600, test_page 1 800 600])
              (test_params 1 2)) = Inr r
       \<and> map img_index (images r) = [1, 2] \<and> sorted (map img_index (images r))"
proof -
  let ?ps = "[test_page 2 800 600, test_page 0 800 600, test_page 1 800 600]"
  let ?params = "test_params 1 2"
  have e: "resp_error (test_response ?ps) = None" by (rule resp_error_test_response)
  have w: "window_of ?ps ?params = [test_page 1 800 600, test_page 2 800 600]"
    by (simp add: window_of_def test_params_sel js_slice_def ordinal_test_page)
  obtain r where r: "snd (parseWikimediaResponse (test_response ?ps) ?params) = Inr r"
    and im: "images r = parsePages (window_of ?ps ?params)"
    using parse_unfold [OF e, of ?params] by (simp add: page_list_test_response)
  have "map img_index (images r) = map ordinal (filter has_usable_info (window_of ?ps ?params))"
    by (simp only: im parsePages_index)
  then have "map img_index (images r) = [1, 2]"
    by (simp add: w usable_test_page ordinal_test_page)
  with r parse_images_sorted [OF r] show ?thesis by (intro exI [of _ r]) simp
qed

subsection \<open>Effect on the document\<close>

text \<open>
  Claim C9, as amended. The call changes the document in one way only: when the document
  has no error and its page list is not empty, the page list is replaced by its stable
  sort by ordinal. So the error field is unchanged, the pages are the same pages (as a
  multiset), and a document whose pages are already in ascending ordinal order is left
  as it was.
\<close>

theorem parse_document_effect:
  "fst (parseWikimediaResponse doc params) =
     (if resp_error doc = None \<and> page_list doc \<noteq> []
      then doc\<lparr>resp_query := Some \<lparr>q_pages = Some (sort_key ordinal (page_list doc))\<rparr>\<rparr>
      else doc)
   \<and> resp_error (fst (parseWikimediaResponse doc params)) = resp_error doc
   \<and> mset (page_list (fst (parseWikimediaResponse doc params))) = mset (page_list doc)
   \<and> (sorted (map ordinal (page_list doc)) \<longrightarrow> fst (parseWikimediaResponse doc params) = doc)"
proof (cases "resp_error doc")
  case (Some e)
  then show ?thesis by (simp add: parseWikimediaResponse_def)
next
  case None
  show ?thesis
  proof (cases "page_list doc = []")
    case True
    then show ?thesis by (simp add: parse_unfold [OF None])
  next
    case False
    then obtain q where q: "resp_query doc = Some q" "q_pages q = Some (page_list doc)"
      by (auto simp: page_list_def split: option.splits)
    have "doc\<lparr>resp_query := Some \<lparr>q_pages = Some (page_list doc)\<rparr>\<rparr> = doc"
      using q by simp
    then show ?thesis
      using False None by (simp add: parse_unfold [OF None] page_list_def sort_key_id_if_sorted)
  qed
qed

theorem parse_document_effect_witness:
  "sorted (map ordinal (page_list (test_response [test_page 0 800 600, test_page 1 800 600])))
   \<and> fst (parseWikimediaResponse (test_response [test_page 0 800 600, test_page 1 800 600])
            (test_params 0 10))
     = test_response [test_page 0 800 600, test_page 1 800 600]"
proof -
  have "sorted (map ordinal (page_list (test_response [test_page 0 800 600, test_page 1 800 600])))"
    by (simp add: page_list_test_response ordinal_test_page)
  with parse_document_effect
         [of "test_response [test_page 0 800 600, test_page 1 800 600]" "test_params 0 10"]
  show ?thesis by blast
qed

text \<open>
  The claim as it was stated says that the document is unchanged, the order of its pages
  included. A document whose two pages have the ordinals \<open>2\<close> and \<open>1\<close>, in that order, is
  left with the pages in the order \<open>1\<close>, \<open>2\<close>.
\<close>

theorem parse_mutates_document_counterexample:
  "fst (parseWikimediaResponse (test_response [test_page 2 800 600, test_page 1 800 600])
          (test_params 0 10))
   \<noteq> test_response [test_page 2 800 600, test_page 1 800 600]
   \<and> page_list (fst (parseWikimediaResponse
                       (test_response [test_page 2 800 600, test_page 1 800 600])
                       (test_params 0 10)))
     = [test_page 1 800 600, test_page 2 800 600]"
proof -
  let ?ps = "[test_page 2 800 600, test_page 1 800 600]"
  have e: "resp_error (test_response ?ps) = None" by (rule resp_error_test_response)
  have "fst (parseWikimediaResponse (test_response ?ps) (test_params 0 10))
        = (test_response ?ps)\<lparr>resp_query :=
             Some \<lparr>q_pages = Some [test_page 1 800 600, test_page 2 800 600]\<rparr>\<rparr>"
    by (simp only: parse_unfold [OF e] page_list_test_response) (simp add: ordinal_test_page)
  then have pl: "page_list (fst (parseWikimediaResponse (test_response ?ps) (test_params 0 10)))
        = [test_page 1 800 600, test_page 2 800 600]"
    by (simp add: page_list_def)
  have "page_list (test_response ?ps) \<noteq> [test_page 1 800 600, test_page 2 800 600]"
    using test_page_index_neq [of 2 1] by (simp add: page_list_test_response)
  with pl show ?thesis by metis
qed

section \<open>Properties of the aspect ratio label\<close>

declare getAspectRatio_loop.simps [simp del]
declare gcd'.simps [simp del]
declare digits_of_nat.simps [simp del]

text \<open>
  The rounding of the model on values whose doubles are known: \<open>1/3\<close>, \<open>1/10\<close> and \<open>37/6\<close>
  round to the doubles \<open>0x3FD5555555555555\<close>, \<open>0x3FB999999999999A\<close> and \<open>0x4018AAAAAAAAAAAB\<close>,
  and the two integers next to \<open>2^53\<close> that are no doubles round to the even neighbour.
\<close>

lemma fl_examples:
  "fdiv 1 3 = 6004799503160661 / 2 ^ 54"
  "fdiv 1 10 = 3602879701896397 / 2 ^ 55"
  "fdiv 37 6 = 6943049425529515 / 2 ^ 50"
  "fl (2 ^ 53 + 1) = 2 ^ 53"
  "fl (2 ^ 53 + 3) = 2 ^ 53 + 4"
  by code_simp+

text \<open>The local \<open>gcd\<close> computes the greatest common divisor, so \<open>divisor\<close> divides both dimensions.\<close>

lemma js_rem_nonneg: "0 \<le> a \<Longrightarrow> 0 < b \<Longrightarrow> js_rem a b = a mod b"
  by (cases "a = 0") (simp_all add: js_rem_def)

lemma gcd'_eq_gcd: "0 \<le> a \<Longrightarrow> 0 \<le> b \<Longrightarrow> gcd' a b = gcd a b"
proof (induction a b rule: gcd'.induct)
  case (1 a b)
  show ?case
  proof (cases "b = 0")
    case True
    with 1 show ?thesis by (simp add: gcd'.simps)
  next
    case False
    with 1 have b: "0 < b" by simp
    with 1 have r: "js_rem a b = a mod b" by (simp add: js_rem_nonneg)
    have "gcd' a b = gcd' b (js_rem a b)" using False by (subst gcd'.simps) simp
    also have "\<dots> = gcd b (a mod b)"
      using 1 False b by (simp add: r)
    also have "\<dots> = gcd a b"
      by (metis gcd.commute gcd_red_int)
    finally show ?thesis .
  qed
qed

lemma loop_step:
  "getAspectRatio_loop t h smallestDelta bestPair =
     (if h \<le> MAX_COMPONENT then
        (if (case smallestDelta of None \<Rightarrow> True | Some d \<Rightarrow> ratio_delta t h < d)
         then getAspectRatio_loop t (h + 1) (Some (ratio_delta t h)) (candidate_width t h, h)
         else getAspectRatio_loop t (h + 1) smallestDelta bestPair)
      else bestPair)"
  unfolding candidate_width_def ratio_delta_def
  by (subst getAspectRatio_loop.simps) (simp add: Let_def)

lemma loop_first_closest:
  assumes "1 \<le> h" and "h \<le> MAX_COMPONENT + 1"
    and "case smallestDelta of
           None \<Rightarrow> h = 1
         | Some d \<Rightarrow> \<exists>hb. bestPair = (candidate_width t hb, hb) \<and> d = ratio_delta t hb
                          \<and> first_closest_below h t hb"
  shows "\<exists>hb. getAspectRatio_loop t h smallestDelta bestPair = (candidate_width t hb, hb)
              \<and> first_closest t hb"
  using assms
proof (induction "nat (MAX_COMPONENT + 1 - h)" arbitrary: h smallestDelta bestPair)
  case 0
  then have h: "h = MAX_COMPONENT + 1" by simp
  with "0.prems" obtain d where "smallestDelta = Some d"
    by (cases smallestDelta) (auto simp: MAX_COMPONENT_def)
  with "0.prems" h show ?case
    by (subst loop_step) (auto simp: first_closest_def)
next
  case (Suc k)
  then have True: "h \<le> MAX_COMPONENT" by simp
  from Suc have k: "k = nat (MAX_COMPONENT + 1 - (h + 1))" by simp
  let ?w = "candidate_width t h"
  let ?delta = "ratio_delta t h"
  have bounds: "1 \<le> h + 1" "h + 1 \<le> MAX_COMPONENT + 1"
    using Suc.prems True by simp_all
  show ?case
  proof (cases "case smallestDelta of None \<Rightarrow> True | Some d \<Rightarrow> ?delta < d")
    case better: True
    have inv: "first_closest_below (h + 1) t h"
    proof (cases smallestDelta)
      case None
      with Suc.prems have "h = 1" by simp
      moreover have "ratio_delta t 1 \<le> ratio_delta t h'" if "1 \<le> h'" "h' < 2" for h'
      proof -
        from that have "h' = 1" by simp
        then show ?thesis by simp
      qed
      ultimately show ?thesis
        by (simp add: first_closest_below_def)
    next
      case (Some d)
      with Suc.prems obtain hb where hb: "d = ratio_delta t hb" "first_closest_below h t hb"
        by auto
      from better Some have lt: "?delta < ratio_delta t hb" by (simp add: hb)
      have far: "?delta < ratio_delta t h'" if "1 \<le> h'" "h' < h" for h'
      proof -
        from hb(2) that have "ratio_delta t hb \<le> ratio_delta t h'"
          by (simp add: first_closest_below_def)
        with lt show ?thesis by simp
      qed
      have "?delta \<le> ratio_delta t h'" if "1 \<le> h'" "h' < h + 1" for h'
      proof (cases "h' = h")
        case True
        then show ?thesis by simp
      next
        case False
        with that far [of h'] show ?thesis by simp
      qed
      with far Suc.prems(1) show ?thesis
        by (simp add: first_closest_below_def)
    qed
    have "\<exists>hb. getAspectRatio_loop t (h + 1) (Some ?delta) (?w, h) = (candidate_width t hb, hb)
            \<and> first_closest t hb"
      using inv by (intro Suc.hyps(1) [OF k bounds]) auto
    with True better show ?thesis by (subst loop_step) simp
  next
    case worse: False
    then obtain d where d: "smallestDelta = Some d" "\<not> ?delta < d"
      by (cases smallestDelta) auto
    with Suc.prems obtain hb where hb: "bestPair = (candidate_width t hb, hb)"
        "d = ratio_delta t hb" "first_closest_below h t hb"
      by auto
    have "ratio_delta t hb \<le> ratio_delta t h'" if "1 \<le> h'" "h' < h + 1" for h'
    proof (cases "h' = h")
      case True
      with d(2) hb(2) show ?thesis by simp
    next
      case False
      with that hb(3) show ?thesis by (simp add: first_closest_below_def)
    qed
    with hb(3) have inv: "first_closest_below (h + 1) t hb"
      by (simp add: first_closest_below_def)
    have "\<exists>hb. getAspectRatio_loop t (h + 1) smallestDelta bestPair = (candidate_width t hb, hb)
            \<and> first_closest t hb"
      using inv hb d by (intro Suc.hyps(1) [OF k bounds]) auto
    with True worse show ?thesis by (subst loop_step) simp
  qed
qed

text \<open>
  Claim C2, as amended. For all integers \<open>width\<close> and \<open>height\<close>: if either is \<open>\<le> 0\<close> the label
  is \<open>unknown\<close>; otherwise, if both components of the pair reduced by the greatest common
  divisor are at most 21, the label is that pair, \<open>w:h\<close>; otherwise the label is the
  approximation sign followed by \<open>w:h\<close>, where \<open>h\<close> is the first of \<open>1, ..., 21\<close> whose
  candidate \<open>w = Math.round(targetRatio * h)\<close> clamped to \<open>[1, 21]\<close> is at the least distance
  \<open>|w / h - targetRatio|\<close> from the target, the ratio, the product, the quotient and the
  difference being the doubles that the code computes. In particular
  \<open>getAspectRatio(4, 3)\<close> is \<open>4:3\<close> and \<open>getAspectRatio(0, 100)\<close> is \<open>unknown\<close>.
\<close>

theorem getAspectRatio_label:
  "(width \<le> 0 \<or> height \<le> 0 \<longrightarrow> getAspectRatio width height = js ''unknown'')
   \<and> (0 < width \<and> 0 < height
        \<and> width div gcd width height \<le> MAX_COMPONENT
        \<and> height div gcd width height \<le> MAX_COMPONENT
      \<longrightarrow> getAspectRatio width height
            = int_toString (width div gcd width height) @ js '':''
              @ int_toString (height div gcd width height))
   \<and> (0 < width \<and> 0 < height
        \<and> \<not> (width div gcd width height \<le> MAX_COMPONENT
              \<and> height div gcd width height \<le> MAX_COMPONENT)
      \<longrightarrow> (\<exists>h. first_closest (fdiv (of_int width) (of_int height)) h
               \<and> getAspectRatio width height
                   = approx_sign
                     # int_toString (candidate_width (fdiv (of_int width) (of_int height)) h)
                     @ js '':'' @ int_toString h))
   \<and> MAX_COMPONENT = 21
   \<and> getAspectRatio 4 3 = js ''4:3''
   \<and> getAspectRatio 0 100 = js ''unknown''"
proof -
  have unknown: "getAspectRatio w h = js ''unknown''" if "w \<le> 0 \<or> h \<le> 0" for w h
    using that by (simp add: getAspectRatio_def)
  have divisor: "gcd' width height = gcd width height" if "0 < width" "0 < height"
    using that gcd'_eq_gcd [of width height] by simp
  have exact: "getAspectRatio width height
            = int_toString (width div gcd width height) @ js '':''
              @ int_toString (height div gcd width height)"
    if "0 < width" "0 < height" "width div gcd width height \<le> MAX_COMPONENT"
       "height div gcd width height \<le> MAX_COMPONENT"
    using that by (simp add: getAspectRatio_def divisor Let_def)
  have approx: "\<exists>h. first_closest (fdiv (of_int width) (of_int height)) h
               \<and> getAspectRatio width height
                   = approx_sign
                     # int_toString (candidate_width (fdiv (of_int width) (of_int height)) h)
                     @ js '':'' @ int_toString h"
    if pos: "0 < width" "0 < height"
      and big: "\<not> (width div gcd width height \<le> MAX_COMPONENT
              \<and> height div gcd width height \<le> MAX_COMPONENT)"
  proof -
    let ?t = "fdiv (of_int width) (of_int height)"
    let ?best = "(width div gcd width height, height div gcd width height)"
    have "\<exists>hb. getAspectRatio_loop ?t 1 None ?best = (candidate_width ?t hb, hb)
              \<and> first_closest ?t hb"
      by (rule loop_first_closest) (simp_all add: MAX_COMPONENT_def)
    then obtain hb where hb: "getAspectRatio_loop ?t 1 None ?best = (candidate_width ?t hb, hb)"
      "first_closest ?t hb" by blast
    have "getAspectRatio width height
          = approx_sign # int_toString (candidate_width ?t hb) @ js '':'' @ int_toString hb"
      using pos big by (auto simp: getAspectRatio_def divisor Let_def hb(1))
    with hb(2) show ?thesis by blast
  qed
  have "getAspectRatio 4 3 = js ''4:3''" by code_simp
  with unknown [of width height] unknown [of 0 100] exact approx show ?thesis
    by (simp add: MAX_COMPONENT_def)
qed

theorem getAspectRatio_label_witness:
  "(0::int) < 1920 \<and> (0::int) < 817
   \<and> \<not> (1920 div gcd (1920::int) 817 \<le> MAX_COMPONENT \<and> 817 div gcd (1920::int) 817 \<le> MAX_COMPONENT)
   \<and> (\<exists>h. first_closest (fdiv (of_int 1920) (of_int 817)) h
          \<and> getAspectRatio 1920 817
              = approx_sign # int_toString (candidate_width (fdiv (of_int 1920) (of_int 817)) h)
                @ js '':'' @ int_toString h)
   \<and> (0::int) < 1080 \<and> 1920 div gcd (1920::int) 1080 \<le> MAX_COMPONENT
   \<and> 1080 div gcd (1920::int) 1080 \<le> MAX_COMPONENT
   \<and> getAspectRatio 1920 1080 = js ''16:9''"
proof -
  have g1: "gcd (1920::int) 817 = 1" by code_simp
  have g2: "gcd (1920::int) 1080 = 120" by code_simp
  have h1: "(0::int) < 1920 \<and> (0::int) < 817
     \<and> \<not> (1920 div gcd (1920::int) 817 \<le> MAX_COMPONENT
           \<and> 817 div gcd (1920::int) 817 \<le> MAX_COMPONENT)"
    by (simp add: g1 MAX_COMPONENT_def)
  have h2: "(0::int) < 1920 \<and> (0::int) < 1080
     \<and> 1920 div gcd (1920::int) 1080 \<le> MAX_COMPONENT
     \<and> 1080 div gcd (1920::int) 1080 \<le> MAX_COMPONENT"
    by (simp add: g2 MAX_COMPONENT_def)
  have s: "int_toString (1920 div gcd (1920::int) 1080) @ js '':''
           @ int_toString (1080 div gcd (1920::int) 1080) = js ''16:9''"
    by (simp add: g2 int_toString_def digits_of_nat.simps digit_char_def js_def)
  from getAspectRatio_label [of 1920 817] h1
  have c1: "\<exists>h. first_closest (fdiv (of_int 1920) (of_int 817)) h
          \<and> getAspectRatio 1920 817
              = approx_sign # int_toString (candidate_width (fdiv (of_int 1920) (of_int 817)) h)
                @ js '':'' @ int_toString h"
    by blast
  from getAspectRatio_label [of 1920 1080] h2
  have "getAspectRatio 1920 1080
        = int_toString (1920 div gcd (1920::int) 1080) @ js '':''
          @ int_toString (1080 div gcd (1920::int) 1080)"
    by blast
  with s have c2: "getAspectRatio 1920 1080 = js ''16:9''" by simp
  from h1 h2 c1 c2 show ?thesis by blast
qed

text \<open>
  The claim as it was stated measures the distance \<open>|w / h - width / height|\<close> itself and
  lets the first pair win a tie. For 37 by 6 the pairs \<open>6:1\<close> (at \<open>h = 1\<close>) and \<open>19:3\<close> (at
  \<open>h = 3\<close>) are both at the distance \<open>1/6\<close> exactly, but the doubles computed for the two
  distances differ and the code answers \<open>19:3\<close>.
\<close>

lemma getAspectRatio_37_6: "getAspectRatio 37 6 = approx_sign # js ''19:3''"
  by code_simp

theorem getAspectRatio_exact_tie_counterexample:
  "getAspectRatio 37 6 = approx_sign # js ''19:3''
   \<and> exact_candidate (37 / 6) 3 = 19 \<and> exact_delta (37 / 6) 3 = 1 / 6
   \<and> exact_candidate (37 / 6) 1 = 6 \<and> exact_delta (37 / 6) 1 = 1 / 6"
proof -
  have "exact_candidate (37 / 6) 3 = 19" "exact_delta (37 / 6) 3 = 1 / 6"
       "exact_candidate (37 / 6) 1 = 6" "exact_delta (37 / 6) 1 = 1 / 6"
    by code_simp+
  with getAspectRatio_37_6 show ?thesis by simp
qed

section \<open>Properties of the thumbnail URL rewriting\<close>

subsection \<open>The matcher finds the width segments\<close>





subsection \<open>Replacing the leftmost match\<close>




subsection \<open>Sample URLs\<close>






section \<open>Properties of the thumbnail composite\<close>

subsection \<open>The retained items and their outcomes\<close>

lemma js_slice_take: "js_slice xs 0 (int n) = take n xs"
  by (simp add: js_slice_def Let_def min_def)

lemma limitedImages_take: "limitedImages imgs = take MAX_IMAGES_IN_COMPOSITE imgs"
  by (simp add: limitedImages_def js_slice_take)

lemma length_limitedImages:
  "length (limitedImages imgs) = min (length imgs) MAX_IMAGES_IN_COMPOSITE"
  by (simp add: limitedImages_take)

lemma limitedImages_short:
  "length imgs \<le> MAX_IMAGES_IN_COMPOSITE \<Longrightarrow> limitedImages imgs = imgs"
  by (simp add: limitedImages_take)

lemma limitedImages_idem: "limitedImages (take MAX_IMAGES_IN_COMPOSITE imgs) = limitedImages imgs"
  by (simp add: limitedImages_take)

lemma processImage_index: "processImage w i img = Some (b, j) \<Longrightarrow> j = i"
  by (auto simp: processImage_def split: response.splits option.splits if_splits)

lemma set_map_filter_map:
  "set (List.map_filter (\<lambda>b. b) (map f xs)) = {y. \<exists>x \<in> set xs. f x = Some y}"
  by (induction xs) (auto simp: List.map_filter_simps split: option.splits)

lemma in_validImages:
  "(b, i) \<in> set (validImages w imgs) \<longleftrightarrow>
     i < length (limitedImages imgs) \<and> processImage w i (limitedImages imgs ! i) = Some (b, i)"
proof
  assume "(b, i) \<in> set (validImages w imgs)"
  then obtain k img where "(k, img) \<in> set (enumerate 0 (limitedImages imgs))"
      and p: "processImage w k img = Some (b, i)"
    by (auto simp: validImages_def imageBuffers_def set_map_filter_map)
  then have k: "k < length (limitedImages imgs)" "img = limitedImages imgs ! k"
    by (simp_all add: in_set_enumerate_eq)
  from processImage_index [OF p] have "i = k" .
  with k p show "i < length (limitedImages imgs)
                 \<and> processImage w i (limitedImages imgs ! i) = Some (b, i)" by simp
next
  assume a: "i < length (limitedImages imgs)
             \<and> processImage w i (limitedImages imgs ! i) = Some (b, i)"
  then have "(i, limitedImages imgs ! i) \<in> set (enumerate 0 (limitedImages imgs))"
    by (simp add: in_set_enumerate_eq)
  with a have "\<exists>x \<in> set (enumerate 0 (limitedImages imgs)).
                 (case x of (k, img) \<Rightarrow> processImage w k img) = Some (b, i)"
    by (intro bexI [of _ "(i, limitedImages imgs ! i)"]) simp_all
  then show "(b, i) \<in> set (validImages w imgs)"
    by (simp add: validImages_def imageBuffers_def set_map_filter_map)
qed

lemma validImages_empty:
  "validImages w imgs = [] \<longleftrightarrow>
     (\<forall>i < length (limitedImages imgs). processImage w i (limitedImages imgs ! i) = None)"
proof
  assume e: "validImages w imgs = []"
  show "\<forall>i < length (limitedImages imgs). processImage w i (limitedImages imgs ! i) = None"
  proof (intro allI impI)
    fix i assume i: "i < length (limitedImages imgs)"
    show "processImage w i (limitedImages imgs ! i) = None"
    proof (cases "processImage w i (limitedImages imgs ! i)")
      case None
      then show ?thesis .
    next
      case (Some r)
      obtain b j where r: "r = (b, j)" by (cases r)
      from Some r have p: "processImage w i (limitedImages imgs ! i) = Some (b, j)" by simp
      from processImage_index [OF p] p i have "(b, i) \<in> set (validImages w imgs)"
        by (simp add: in_validImages)
      with e show ?thesis by simp
    qed
  qed
next
  assume a: "\<forall>i < length (limitedImages imgs). processImage w i (limitedImages imgs ! i) = None"
  show "validImages w imgs = []"
  proof (cases "validImages w imgs")
    case Nil
    then show ?thesis .
  next
    case (Cons r rs)
    obtain b i where "r = (b, i)" by (cases r)
    with Cons have "(b, i) \<in> set (validImages w imgs)" by simp
    with a show ?thesis by (auto simp: in_validImages)
  qed
qed

lemma composite_canvas_None:
  "composite_canvas w imgs = None \<longleftrightarrow> validImages w imgs = []"
proof (cases "limitedImages imgs = []")
  case True
  then have "validImages w imgs = []"
    by (simp add: validImages_def imageBuffers_def List.map_filter_def)
  with True show ?thesis by (simp add: composite_canvas_def)
next
  case False
  then show ?thesis by (simp add: composite_canvas_def Let_def)
qed

lemma composite_canvas_layers:
  "composite_canvas w imgs = Some c \<Longrightarrow>
     layers c = compositeInputs (validImages w imgs) @ textOverlays (validImages w imgs)"
  by (auto simp: composite_canvas_def Let_def split: if_splits)

subsection \<open>The sample worlds\<close>

lemma mock_world_render: "render mock_world c = Inr (js ''/9j/'')"
  by (simp add: mock_world_def)

lemma mock_world_process:
  "processImage mock_world i img = (if i = 1 then None else Some (fetchUrl img, i))"
  by (simp add: processImage_def mock_world_def)

lemma offline_world_process: "processImage offline_world i img = None"
  by (simp add: processImage_def offline_world_def)

subsection \<open>Empty output\<close>

text \<open>
  Claim C5. \<open>generateThumbnailComposite\<close> returns the empty string for the empty list,
  with no request issued, and when the processing of every retained item fails. The
  failure of an item never makes the call fail: as soon as one item succeeds the outcome
  is that of the final encoding of the canvas, and it is a non-empty string whenever
  the encoder yields one for every canvas.
\<close>

theorem composite_empty_only_without_success:
  "generateThumbnailComposite w [] = ([], Inr [])
   \<and> ((\<forall>i < length (limitedImages imgs). processImage w i (limitedImages imgs ! i) = None)
        \<longrightarrow> snd (generateThumbnailComposite w imgs) = Inr [])
   \<and> ((\<exists>i < length (limitedImages imgs). processImage w i (limitedImages imgs ! i) \<noteq> None)
        \<longrightarrow> (\<exists>c. composite_canvas w imgs = Some c
                 \<and> snd (generateThumbnailComposite w imgs) = render w c))
   \<and> ((\<exists>i < length (limitedImages imgs). processImage w i (limitedImages imgs ! i) \<noteq> None)
        \<and> (\<forall>c. \<exists>s. render w c = Inr s \<and> s \<noteq> [])
        \<longrightarrow> (\<exists>s. snd (generateThumbnailComposite w imgs) = Inr s \<and> s \<noteq> []))"
proof -
  have empty: "generateThumbnailComposite w [] = ([], Inr [])"
    by (simp add: generateThumbnailComposite_def fetch_requests_def composite_canvas_def
                  limitedImages_take)
  have none: "snd (generateThumbnailComposite w imgs) = Inr []"
    if "\<forall>i < length (limitedImages imgs). processImage w i (limitedImages imgs ! i) = None"
  proof -
    from that have "composite_canvas w imgs = None"
      by (simp only: composite_canvas_None validImages_empty)
    then show ?thesis by (simp add: generateThumbnailComposite_def)
  qed
  have some: "\<exists>c. composite_canvas w imgs = Some c
                 \<and> snd (generateThumbnailComposite w imgs) = render w c"
    if "\<exists>i < length (limitedImages imgs). processImage w i (limitedImages imgs ! i) \<noteq> None"
  proof -
    from that obtain i where "i < length (limitedImages imgs)"
        "processImage w i (limitedImages imgs ! i) \<noteq> None" by blast
    with validImages_empty [of w imgs] have "validImages w imgs \<noteq> []"
      by auto
    then have "composite_canvas w imgs \<noteq> None"
      by (simp only: composite_canvas_None) simp
    then obtain c where "composite_canvas w imgs = Some c" by auto
    then show ?thesis by (simp add: generateThumbnailComposite_def)
  qed
  have nonempty: "\<exists>s. snd (generateThumbnailComposite w imgs) = Inr s \<and> s \<noteq> []"
    if ok: "\<exists>i < length (limitedImages imgs). processImage w i (limitedImages imgs ! i) \<noteq> None"
      and enc: "\<forall>c. \<exists>s. render w c = Inr s \<and> s \<noteq> []"
  proof -
    from some [OF ok] obtain c where "snd (generateThumbnailComposite w imgs) = render w c"
      by blast
    moreover from enc obtain s where "render w c = Inr s" "s \<noteq> []" by blast
    ultimately show ?thesis by simp
  qed
  show ?thesis
  proof (intro conjI impI)
    show "generateThumbnailComposite w [] = ([], Inr [])" by (rule empty)
  next
    assume "\<forall>i < length (limitedImages imgs). processImage w i (limitedImages imgs ! i) = None"
    then show "snd (generateThumbnailComposite w imgs) = Inr []" by (rule none)
  next
    assume "\<exists>i < length (limitedImages imgs). processImage w i (limitedImages imgs ! i) \<noteq> None"
    then show "\<exists>c. composite_canvas w imgs = Some c
                 \<and> snd (generateThumbnailComposite w imgs) = render w c" by (rule some)
  next
    assume h: "(\<exists>i < length (limitedImages imgs). processImage w i (limitedImages imgs ! i) \<noteq> None)
        \<and> (\<forall>c. \<exists>s. render w c = Inr s \<and> s \<noteq> [])"
    show "\<exists>s. snd (generateThumbnailComposite w imgs) = Inr s \<and> s \<noteq> []"
      by (rule nonempty [OF conjunct1 [OF h] conjunct2 [OF h]])
  qed
qed

theorem composite_empty_only_without_success_witness:
  "(\<exists>i < length (limitedImages [mock_image test_url, mock_image test_url]).
      processImage mock_world i (limitedImages [mock_image test_url, mock_image test_url] ! i) \<noteq> None)
   \<and> (\<forall>c. \<exists>s. render mock_world c = Inr s \<and> s \<noteq> [])
   \<and> snd (generateThumbnailComposite mock_world [mock_image test_url, mock_image test_url])
       = Inr (js ''/9j/'')
   \<and> length (limitedImages [mock_image test_url, mock_image test_url]) = 2
   \<and> processImage offline_world 0 (limitedImages [mock_image test_url, mock_image test_url] ! 0) = None
   \<and> processImage offline_world 1 (limitedImages [mock_image test_url, mock_image test_url] ! 1) = None
   \<and> snd (generateThumbnailComposite offline_world [mock_image test_url, mock_image test_url])
       = Inr []"
proof -
  let ?imgs = "[mock_image test_url, mock_image test_url]"
  have lim: "limitedImages ?imgs = ?imgs"
    by (rule limitedImages_short) (simp add: MAX_IMAGES_IN_COMPOSITE_def)
  have ok: "\<exists>i < length (limitedImages ?imgs).
              processImage mock_world i (limitedImages ?imgs ! i) \<noteq> None"
    by (rule exI [of _ 0]) (simp add: lim mock_world_process)
  have enc: "\<forall>c. \<exists>s. render mock_world c = Inr s \<and> s \<noteq> []"
    by (simp add: mock_world_render js_def)
  have off: "\<forall>i < length (limitedImages ?imgs).
               processImage offline_world i (limitedImages ?imgs ! i) = None"
    by (simp add: offline_world_process)
  from composite_empty_only_without_success [of mock_world ?imgs] ok
  obtain c where "snd (generateThumbnailComposite mock_world ?imgs) = render mock_world c"
    by blast
  then have a: "snd (generateThumbnailComposite mock_world ?imgs) = Inr (js ''/9j/'')"
    by (simp add: mock_world_render)
  from composite_empty_only_without_success [of offline_world ?imgs] off
  have b: "snd (generateThumbnailComposite offline_world ?imgs) = Inr []"
    by blast
  have len: "length (limitedImages ?imgs) = 2" by (simp add: lim)
  from ok enc a b len show ?thesis by (simp add: offline_world_process)
qed

subsection \<open>The cap on the number of items\<close>

lemma fetch_requests_fst:
  "map fst (fetch_requests imgs) = [0..<min (length imgs) MAX_IMAGES_IN_COMPOSITE]"
  by (simp add: fetch_requests_def enumerate_eq_zip limitedImages_take map_fst_zip_take
                split_def comp_def min.commute)

lemma fetch_requests_snd:
  "map snd (fetch_requests imgs) = map fetchUrl (take MAX_IMAGES_IN_COMPOSITE imgs)"
proof -
  have "map snd (fetch_requests imgs)
        = map (fetchUrl \<circ> snd) (enumerate 0 (limitedImages imgs))"
    by (simp add: fetch_requests_def split_def comp_def)
  also have "\<dots> = map fetchUrl (map snd (enumerate 0 (limitedImages imgs)))"
    by (simp only: map_map)
  finally show ?thesis by (simp add: limitedImages_take)
qed

text \<open>
  Claim C6. Only the first \<open>MAX_IMAGES_IN_COMPOSITE = 15\<close> records are processed: the
  requests issued are those of the positions \<open>0, ..., min(n, 15) - 1\<close>, each for the URL of
  the record at that position, and the whole outcome is the one of the list cut to its
  first 15 records. For 20 records, 15 requests are issued and 15 items processed.
\<close>

theorem composite_fetches_at_most_cap:
  "fst (generateThumbnailComposite w imgs) = fetch_requests imgs
   \<and> map fst (fetch_requests imgs) = [0..<min (length imgs) MAX_IMAGES_IN_COMPOSITE]
   \<and> map snd (fetch_requests imgs) = map fetchUrl (take MAX_IMAGES_IN_COMPOSITE imgs)
   \<and> length (imageBuffers w imgs) = min (length imgs) MAX_IMAGES_IN_COMPOSITE
   \<and> generateThumbnailComposite w imgs
       = generateThumbnailComposite w (take MAX_IMAGES_IN_COMPOSITE imgs)
   \<and> MAX_IMAGES_IN_COMPOSITE = 15
   \<and> (length imgs = 20 \<longrightarrow> length (fst (generateThumbnailComposite w imgs)) = 15
                             \<and> length (imageBuffers w imgs) = 15)"
proof -
  have a: "fst (generateThumbnailComposite w imgs) = fetch_requests imgs"
    by (simp add: generateThumbnailComposite_def)
  have b: "length (imageBuffers w imgs) = min (length imgs) MAX_IMAGES_IN_COMPOSITE"
    by (simp add: imageBuffers_def length_limitedImages)
  have c: "length (fetch_requests imgs) = min (length imgs) MAX_IMAGES_IN_COMPOSITE"
    by (simp add: fetch_requests_def length_limitedImages)
  have d: "generateThumbnailComposite w imgs
           = generateThumbnailComposite w (take MAX_IMAGES_IN_COMPOSITE imgs)"
    by (simp only: generateThumbnailComposite_def fetch_requests_def composite_canvas_def
                   validImages_def imageBuffers_def limitedImages_idem)
  from a b c d fetch_requests_fst [of imgs] fetch_requests_snd [of imgs] show ?thesis
    by (simp add: MAX_IMAGES_IN_COMPOSITE_def)
qed

theorem composite_fetches_at_most_cap_witness:
  "length (replicate 20 (mock_image test_url)) = 20
   \<and> length (fst (generateThumbnailComposite mock_world (replicate 20 (mock_image test_url)))) = 15
   \<and> length (imageBuffers mock_world (replicate 20 (mock_image test_url))) = 15"
proof -
  have l: "length (replicate 20 (mock_image test_url)) = 20" by simp
  with composite_fetches_at_most_cap [of mock_world "replicate 20 (mock_image test_url)"]
  show ?thesis by blast
qed

subsection \<open>Grid positions\<close>

text \<open>
  For the at most 15 retained positions the double division of the code gives the
  integer row, so the cell origins of the code are those of the grid.
\<close>

lemma cell_row_small: "list_all (\<lambda>i. cell_row i = int (i div 3)) [0..<15]"
  by code_simp

lemma cell_row_div: "i < MAX_IMAGES_IN_COMPOSITE \<Longrightarrow> cell_row i = int (i div 3)"
  using cell_row_small by (simp add: list_all_iff MAX_IMAGES_IN_COMPOSITE_def)

lemma cell_col_mod: "cell_col i = int (i mod 3)"
  by (cases "i = 0") (simp_all add: cell_col_def js_rem_def COLUMNS_def zmod_int)

lemma cell_origin:
  assumes "i < MAX_IMAGES_IN_COMPOSITE"
  shows "cell_top i = grid_top i" and "cell_left i = grid_left i"
  by (simp_all add: cell_top_def cell_left_def grid_top_def grid_left_def
                    cell_row_div [OF assms] cell_col_mod)

lemma grid_top_row: "grid_top i = 266 * int (i div 3) + 10"
  by (simp add: grid_top_def THUMBNAIL_SIZE_def SPACING_def algebra_simps)

lemma grid_left_col: "grid_left i = 266 * int (i mod 3) + 10"
  by (simp add: grid_left_def THUMBNAIL_SIZE_def SPACING_def algebra_simps)

lemma grid_origin_offset: "grid_top i + 5 \<noteq> grid_top j" "grid_top i \<noteq> grid_top j + 5"
proof -
  have ne: "266 * a + 10 + 5 \<noteq> 266 * b + 10" for a b :: int
  proof
    assume "266 * a + 10 + 5 = 266 * b + 10"
    then have "266 * (b - a) = 5" by (simp add: algebra_simps)
    then have "(266::int) dvd 5" by (metis dvd_triv_left)
    then show False by simp
  qed
  show "grid_top i + 5 \<noteq> grid_top j"
    unfolding grid_top_row by (rule ne)
  show "grid_top i \<noteq> grid_top j + 5"
    unfolding grid_top_row using ne [of "int (j div 3)" "int (i div 3)"] by simp
qed

lemma grid_origin_inj:
  assumes "grid_top i = grid_top j" and "grid_left i = grid_left j"
  shows "i = j"
proof -
  from assms have "i div 3 = j div 3" "i mod 3 = j mod 3"
    by (simp_all add: grid_top_row grid_left_col)
  then show ?thesis by (metis div_mult_mod_eq)
qed

lemma composite_layers_grid:
  assumes "composite_canvas w imgs = Some c"
  shows "layers c = map (\<lambda>(b, i). thumbnail_layer b i) (validImages w imgs)
                    @ map (\<lambda>(b, i). label_layer i) (validImages w imgs)"
proof -
  have small: "i < MAX_IMAGES_IN_COMPOSITE" if "(b, i) \<in> set (validImages w imgs)" for b i
    using that by (simp add: in_validImages length_limitedImages)
  have "compositeInputs (validImages w imgs)
        = map (\<lambda>(b, i). thumbnail_layer b i) (validImages w imgs)"
    unfolding compositeInputs_def
    by (rule map_cong) (auto simp: thumbnail_layer_def cell_origin dest: small)
  moreover have "textOverlays (validImages w imgs)
        = map (\<lambda>(b, i). label_layer i) (validImages w imgs)"
    unfolding textOverlays_def
    by (rule map_cong) (auto simp: label_layer_def cell_origin dest: small)
  ultimately show ?thesis by (simp add: composite_canvas_layers [OF assms])
qed

lemma in_composite_layers:
  assumes "composite_canvas w imgs = Some c"
  shows "l \<in> set (layers c) \<longleftrightarrow>
           (\<exists>i b. i < length (limitedImages imgs)
                  \<and> processImage w i (limitedImages imgs ! i) = Some (b, i)
                  \<and> (l = thumbnail_layer b i \<or> l = label_layer i))"
proof
  assume "l \<in> set (layers c)"
  then obtain b i where "(b, i) \<in> set (validImages w imgs)"
      "l = thumbnail_layer b i \<or> l = label_layer i"
    by (auto simp: composite_layers_grid [OF assms])
  then show "\<exists>i b. i < length (limitedImages imgs)
                  \<and> processImage w i (limitedImages imgs ! i) = Some (b, i)
                  \<and> (l = thumbnail_layer b i \<or> l = label_layer i)"
    by (auto simp: in_validImages)
next
  assume "\<exists>i b. i < length (limitedImages imgs)
                  \<and> processImage w i (limitedImages imgs ! i) = Some (b, i)
                  \<and> (l = thumbnail_layer b i \<or> l = label_layer i)"
  then obtain i b where v: "(b, i) \<in> set (validImages w imgs)"
      and l: "l = thumbnail_layer b i \<or> l = label_layer i"
    by (auto simp: in_validImages)
  from l show "l \<in> set (layers c)"
  proof
    assume "l = thumbnail_layer b i"
    with v have "l \<in> (\<lambda>(b, i). thumbnail_layer b i) ` set (validImages w imgs)"
      by (intro image_eqI [of _ _ "(b, i)"]) simp_all
    then show ?thesis by (simp add: composite_layers_grid [OF assms])
  next
    assume "l = label_layer i"
    with v have "l \<in> (\<lambda>(b, i). label_layer i) ` set (validImages w imgs)"
      by (intro image_eqI [of _ _ "(b, i)"]) simp_all
    then show ?thesis by (simp add: composite_layers_grid [OF assms])
  qed
qed

text \<open>
  Claim C7. In the canvas that is encoded, every item that was processed with success
  has its thumbnail at the cell of its position \<open>i\<close> in the retained list (row
  \<open>floor(i / 3)\<close>, column \<open>i mod 3\<close>, \<open>top = row * cell + (row + 1) * spacing\<close>,
  \<open>left = col * cell + (col + 1) * spacing\<close>) and a label showing \<open>i + 1\<close> five pixels
  inside that origin. An item that failed leaves its cell blank: no layer is placed at
  its origin or at its label's place. The canvas holds no other layer.
\<close>

theorem composite_layers_keep_positions:
  assumes "composite_canvas w imgs = Some c"
  shows "(\<forall>i < length (limitedImages imgs). \<forall>b.
            processImage w i (limitedImages imgs ! i) = Some (b, i)
            \<longrightarrow> thumbnail_layer b i \<in> set (layers c) \<and> label_layer i \<in> set (layers c))
       \<and> (\<forall>i < length (limitedImages imgs).
            processImage w i (limitedImages imgs ! i) = None
            \<longrightarrow> (\<forall>l \<in> set (layers c).
                   (layer_top l, layer_left l) \<noteq> (grid_top i, grid_left i)
                   \<and> (layer_top l, layer_left l) \<noteq> (grid_top i + 5, grid_left i + 5)))
       \<and> (\<forall>l \<in> set (layers c). \<exists>i < length (limitedImages imgs). \<exists>b.
            processImage w i (limitedImages imgs ! i) = Some (b, i)
            \<and> (l = thumbnail_layer b i \<or> l = label_layer i))"
proof (intro conjI allI impI ballI)
  fix i b
  assume "i < length (limitedImages imgs)"
    and "processImage w i (limitedImages imgs ! i) = Some (b, i)"
  then show "thumbnail_layer b i \<in> set (layers c)" "label_layer i \<in> set (layers c)"
    using in_composite_layers [OF assms] by blast+
next
  fix i l
  assume i: "i < length (limitedImages imgs)"
    and none: "processImage w i (limitedImages imgs ! i) = None"
    and l: "l \<in> set (layers c)"
  from l in_composite_layers [OF assms] obtain j b
    where j: "processImage w j (limitedImages imgs ! j) = Some (b, j)"
      and lj: "l = thumbnail_layer b j \<or> l = label_layer j"
    by blast
  from j none have ne: "j \<noteq> i" by auto
  from lj show "(layer_top l, layer_left l) \<noteq> (grid_top i, grid_left i)"
  proof
    assume "l = thumbnail_layer b j"
    with ne grid_origin_inj [of j i] show ?thesis by (auto simp: thumbnail_layer_def)
  next
    assume "l = label_layer j"
    with grid_origin_offset(1) [of j i] show ?thesis by (simp add: label_layer_def)
  qed
  from lj show "(layer_top l, layer_left l) \<noteq> (grid_top i + 5, grid_left i + 5)"
  proof
    assume "l = thumbnail_layer b j"
    with grid_origin_offset(2) [of j i] show ?thesis by (simp add: thumbnail_layer_def)
  next
    assume "l = label_layer j"
    with ne grid_origin_inj [of j i] show ?thesis by (auto simp: label_layer_def)
  qed
next
  fix l
  assume "l \<in> set (layers c)"
  with in_composite_layers [OF assms]
  show "\<exists>i < length (limitedImages imgs). \<exists>b.
            processImage w i (limitedImages imgs ! i) = Some (b, i)
            \<and> (l = thumbnail_layer b i \<or> l = label_layer i)"
    by blast
qed

theorem composite_layers_keep_positions_witness:
  "\<exists>c. composite_canvas mock_world (replicate 4 (mock_image test_url)) = Some c
       \<and> processImage mock_world 3 (limitedImages (replicate 4 (mock_image test_url)) ! 3)
           = Some (fetchUrl (mock_image test_url), 3)
       \<and> thumbnail_layer (fetchUrl (mock_image test_url)) 3 \<in> set (layers c)
       \<and> (label_layer 3 :: jsstring layer) \<in> set (layers c)
       \<and> grid_top 3 = 276 \<and> grid_left 3 = 10
       \<and> processImage mock_world 1 (limitedImages (replicate 4 (mock_image test_url)) ! 1) = None
       \<and> (\<forall>l \<in> set (layers c). (layer_top l, layer_left l) \<noteq> (grid_top 1, grid_left 1))"
proof -
  let ?imgs = "replicate 4 (mock_image test_url)"
  have lim: "limitedImages ?imgs = ?imgs"
    by (rule limitedImages_short) (simp add: MAX_IMAGES_IN_COMPOSITE_def)
  have len: "length (limitedImages ?imgs) = 4" by (simp add: lim)
  have p3: "processImage mock_world 3 (limitedImages ?imgs ! 3)
            = Some (fetchUrl (mock_image test_url), 3)"
    by (simp add: lim mock_world_process)
  have p1: "processImage mock_world 1 (limitedImages ?imgs ! 1) = None"
    by (simp add: mock_world_process)
  have "validImages mock_world ?imgs \<noteq> []"
    using p3 len validImages_empty [of mock_world ?imgs] by force
  then obtain c where c: "composite_canvas mock_world ?imgs = Some c"
    using composite_canvas_None [of mock_world ?imgs] by auto
  note t = composite_layers_keep_positions [OF c]
  from t p3 len have in3: "thumbnail_layer (fetchUrl (mock_image test_url)) 3 \<in> set (layers c)"
    "(label_layer 3 :: jsstring layer) \<in> set (layers c)"
    by auto
  from t p1 len have blank: "\<forall>l \<in> set (layers c). (layer_top l, layer_left l) \<noteq> (grid_top 1, grid_left 1)"
    by auto
  have g: "grid_top 3 = 276" "grid_left 3 = 10"
    by (simp_all add: grid_top_row grid_left_col)
  from c p3 in3 g p1 blank show ?thesis by blast
qed

subsection \<open>A single item\<close>

lemma rows_one: "\<lceil>fdiv 1 3\<rceil> = 1"
  by code_simp

lemma single_item_canvas:
  assumes "processImage w 0 img = Some (b, j)"
  shows "composite_canvas w [img]
         = Some \<lparr> canvasWidth = 808, canvasHeight = 276,
                  layers = [thumbnail_layer b 0, label_layer 0] \<rparr>"
proof -
  from processImage_index [OF assms] assms have p: "processImage w 0 img = Some (b, 0)" by simp
  have lim: "limitedImages [img] = [img]"
    by (simp add: limitedImages_take MAX_IMAGES_IN_COMPOSITE_def)
  have v: "validImages w [img] = [(b, 0)]"
    by (simp add: validImages_def imageBuffers_def lim enumerate_simps p List.map_filter_simps)
  have o: "cell_top 0 = grid_top 0" "cell_left 0 = grid_left 0"
    by (simp_all add: cell_origin MAX_IMAGES_IN_COMPOSITE_def)
  show ?thesis
    by (simp add: composite_canvas_def lim v rows_one Let_def compositeInputs_def
                  textOverlays_def thumbnail_layer_def label_layer_def o
                  COLUMNS_def THUMBNAIL_SIZE_def SPACING_def)
qed

text \<open>
  Claim C8, as amended. For exactly one record whose processing succeeds, the canvas that
  is encoded is 808 wide and 276 tall, the canvas of a grid of one row and three columns
  (the column count is fixed); it holds the thumbnail at \<open>(10, 10)\<close> and the label \<open>1\<close> at
  \<open>(15, 15)\<close>. The outcome is the encoding of that canvas, a non-empty string whenever the
  encoder yields one for every canvas.
\<close>

theorem composite_single_item:
  assumes "processImage w 0 img = Some (b, j)"
  shows "composite_canvas w [img]
         = Some \<lparr> canvasWidth = 808, canvasHeight = 276,
                  layers = [thumbnail_layer b 0, label_layer 0] \<rparr>
       \<and> composite_size w [img] = Some (layout_canvas_size 3 1)
       \<and> snd (generateThumbnailComposite w [img])
           = render w \<lparr> canvasWidth = 808, canvasHeight = 276,
                         layers = [thumbnail_layer b 0, label_layer 0] \<rparr>
       \<and> ((\<forall>c. \<exists>s. render w c = Inr s \<and> s \<noteq> [])
            \<longrightarrow> (\<exists>s. snd (generateThumbnailComposite w [img]) = Inr s \<and> s \<noteq> []))"
proof -
  note c = single_item_canvas [OF assms]
  have "composite_size w [img] = Some (layout_canvas_size 3 1)"
    by (simp add: composite_size_def c canvas_size_def layout_canvas_size_def
                  THUMBNAIL_SIZE_def SPACING_def)
  moreover have "snd (generateThumbnailComposite w [img])
           = render w \<lparr> canvasWidth = 808, canvasHeight = 276,
                         layers = [thumbnail_layer b 0, label_layer 0] \<rparr>"
    by (simp add: generateThumbnailComposite_def c)
  ultimately show ?thesis using c by auto
qed

theorem composite_single_item_witness:
  "processImage mock_world 0 (mock_image test_url) = Some (fetchUrl (mock_image test_url), 0)
   \<and> composite_size mock_world [mock_image test_url] = Some (808, 276)
   \<and> (\<forall>c. \<exists>s. render mock_world c = Inr s \<and> s \<noteq> [])
   \<and> snd (generateThumbnailComposite mock_world [mock_image test_url]) = Inr (js ''/9j/'')"
proof -
  have p: "processImage mock_world 0 (mock_image test_url)
           = Some (fetchUrl (mock_image test_url), 0)"
    by (simp add: mock_world_process)
  have enc: "\<forall>c. \<exists>s. render mock_world c = Inr s \<and> s \<noteq> []"
    by (simp add: mock_world_render js_def)
  note t = composite_single_item [OF p]
  from t have "composite_size mock_world [mock_image test_url] = Some (808, 276)"
    by (simp add: layout_canvas_size_def THUMBNAIL_SIZE_def SPACING_def)
  moreover from t have "snd (generateThumbnailComposite mock_world [mock_image test_url])
                        = Inr (js ''/9j/'')"
    by (simp add: mock_world_render)
  ultimately show ?thesis using p enc by blast
qed

text \<open>
  The claim as it was stated gives the canvas of a layout of one row and one column,
  276 by 276.
\<close>

theorem composite_single_item_layout_counterexample:
  "composite_size mock_world [mock_image test_url] = Some (808, 276)
   \<and> layout_canvas_size 1 1 = (276, 276)
   \<and> composite_size mock_world [mock_image test_url] \<noteq> Some (layout_canvas_size 1 1)"
proof -
  have p: "processImage mock_world 0 (mock_image test_url)
           = Some (fetchUrl (mock_image test_url), 0)"
    by (simp add: mock_world_process)
  have "composite_size mock_world [mock_image test_url] = Some (808, 276)"
    by (simp add: composite_size_def single_item_canvas [OF p] canvas_size_def)
  moreover have "layout_canvas_size 1 1 = (276, 276)"
    by (simp add: layout_canvas_size_def THUMBNAIL_SIZE_def SPACING_def)
  ultimately show ?thesis by simp
qed

end
